theory Spec2Isabelle
  imports
    Complex_Main
    "HOL-Library.Char_ord"
    "HOL-Library.List_Lexorder"
    "HOL-Library.Product_Lexorder"
    "HOL-Library.Multiset"
begin

section \<open>The scheduling core of \<^verbatim>\<open>app.py\<close>\<close>

text \<open>
  The development embeds \<^verbatim>\<open>days_until_deadline\<close>, \<^verbatim>\<open>compute_score\<close>,
  \<^verbatim>\<open>format_time\<close> and \<^verbatim>\<open>schedule_tasks_for_day\<close> of \<^verbatim>\<open>src/app.py\<close>.

  Conventions of the embedding:
  \<^item> Python \<^verbatim>\<open>int\<close> is \<^typ>\<open>int\<close>. Python \<^verbatim>\<open>float\<close> is idealised as \<^typ>\<open>real\<close>:
    rounding, infinities and NaN are not modelled.
  \<^item> Strings are \<^typ>\<open>string\<close> and are taken to be ASCII text; the Unicode decimal
    digits and Unicode spaces that Python's \<^verbatim>\<open>int\<close> and \<^verbatim>\<open>\d\<close> also accept are
    outside the model. The standard library is modelled as CPython implements it.
  \<^item> A task dictionary is a record; a key that is absent or \<^verbatim>\<open>null\<close> is \<^const>\<open>None\<close>.
    \<^verbatim>\<open>minutes\<close> is an integer and \<^verbatim>\<open>impact\<close> a number, as \<^verbatim>\<open>add_task\<close> stores them.
  \<^item> \<^verbatim>\<open>date.today()\<close> is the parameter \<open>today\<close>, the proleptic Gregorian ordinal
    of the current day (\<^verbatim>\<open>date.toordinal\<close>).
  \<^item> Every exception is a value of \<open>py_error\<close>; a function that can raise returns
    \<open>py_error + 'a\<close>.
\<close>

subsection \<open>Data\<close>

datatype py_error = ValueError | ZeroDivisionError | OverflowError

record task =
  task_id :: int
  title :: string
  minutes :: int
  impact :: real
  deadline :: "string option"
  task_notes :: string

record block =
  blk_title :: string
  blk_start :: string
  blk_end :: string
  blk_minutes :: int
  blk_impact :: real
  blk_deadline :: "string option"

record pydate =
  year :: int
  month :: int
  day :: int

subsection \<open>Characters and decimal numerals\<close>

definition is_digit :: "char \<Rightarrow> bool" where
  "is_digit c = (c \<in> set ''0123456789'')"

definition digit_val :: "char \<Rightarrow> int" where
  "digit_val c = int (of_char c) - 48"

definition digit_char :: "int \<Rightarrow> char" where
  "digit_char n = char_of (48 + nat n)"

definition two_digits :: "int \<Rightarrow> string" where
  "two_digits n = [digit_char (n div 10 mod 10), digit_char (n mod 10)]"

definition four_digits :: "int \<Rightarrow> string" where
  "four_digits n = two_digits (n div 100) @ two_digits (n mod 100)"

subsection \<open>The calendar of \<^verbatim>\<open>datetime\<close>\<close>

text \<open>\<^verbatim>\<open>_is_leap\<close>, \<^verbatim>\<open>_days_before_year\<close>, \<^verbatim>\<open>_days_in_month\<close>, \<^verbatim>\<open>_days_before_month\<close>
  and \<^verbatim>\<open>_ymd2ord\<close> of the standard library.\<close>

definition is_leap :: "int \<Rightarrow> bool" where
  "is_leap y = (y mod 4 = 0 \<and> (y mod 100 \<noteq> 0 \<or> y mod 400 = 0))"

definition days_before_year :: "int \<Rightarrow> int" where
  "days_before_year y = (y - 1) * 365 + (y - 1) div 4 - (y - 1) div 100 + (y - 1) div 400"

definition days_in_month :: "int \<Rightarrow> int \<Rightarrow> int" where
  "days_in_month y m =
     (if m = 2 \<and> is_leap y then 29
      else [31, 28, 31, 30, 31, 30, 31, 31, 30, 31, 30, 31] ! nat (m - 1))"

definition days_before_month :: "int \<Rightarrow> int \<Rightarrow> int" where
  "days_before_month y m =
     [0, 31, 59, 90, 120, 151, 181, 212, 243, 273, 304, 334] ! nat (m - 1)
       + (if m > 2 \<and> is_leap y then 1 else 0)"

definition toordinal :: "pydate \<Rightarrow> int" where
  "toordinal d = days_before_year (year d) + days_before_month (year d) (month d) + day d"

text \<open>The check of the \<^verbatim>\<open>date\<close> constructor (\<^verbatim>\<open>MINYEAR = 1\<close>, \<^verbatim>\<open>MAXYEAR = 9999\<close>).\<close>

definition valid_date :: "pydate \<Rightarrow> bool" where
  "valid_date d =
     (1 \<le> year d \<and> year d \<le> 9999 \<and> 1 \<le> month d \<and> month d \<le> 12
        \<and> 1 \<le> day d \<and> day d \<le> days_in_month (year d) (month d))"

subsection \<open>\<^verbatim>\<open>datetime.strptime(s, "%Y-%m-%d").date()\<close>\<close>

text \<open>
  \<^verbatim>\<open>strptime\<close> matches the string against the regular expression of the format:
  \<^verbatim>\<open>%Y\<close> is \<^verbatim>\<open>\d\d\d\d\<close>, \<^verbatim>\<open>%m\<close> is \<^verbatim>\<open>1[0-2]|0[1-9]|[1-9]\<close> and
  \<^verbatim>\<open>%d\<close> is \<^verbatim>\<open>3[0-1]|[1-2]\d|0[1-9]|[1-9]| [1-9]\<close>, alternatives tried from the left.
  The match must consume the whole string, and the fields must form a date. Since the
  month is followed by the literal \<^verbatim>\<open>-\<close>, a later alternative never succeeds where an
  earlier one matched and the rest failed, so the first matching alternative decides.
\<close>

definition match_Y :: "string \<Rightarrow> (int \<times> string) option" where
  "match_Y s =
     (case s of
        a # b # c # d # r \<Rightarrow>
          if is_digit a \<and> is_digit b \<and> is_digit c \<and> is_digit d
          then Some (1000 * digit_val a + 100 * digit_val b + 10 * digit_val c + digit_val d, r)
          else None
      | _ \<Rightarrow> None)"

definition match_lit :: "char \<Rightarrow> string \<Rightarrow> string option" where
  "match_lit c s = (case s of x # r \<Rightarrow> if x = c then Some r else None | [] \<Rightarrow> None)"

definition nonzero_digit :: "char \<Rightarrow> bool" where
  "nonzero_digit c = (is_digit c \<and> c \<noteq> CHR ''0'')"

fun match_m :: "string \<Rightarrow> (int \<times> string) option" where
  "match_m (a # b # r) =
     (if a = CHR ''1'' \<and> b \<in> set ''012'' then Some (10 + digit_val b, r)
      else if a = CHR ''0'' \<and> nonzero_digit b then Some (digit_val b, r)
      else if nonzero_digit a then Some (digit_val a, b # r)
      else None)"
| "match_m [a] = (if nonzero_digit a then Some (digit_val a, []) else None)"
| "match_m [] = None"

fun match_d :: "string \<Rightarrow> (int \<times> string) option" where
  "match_d (a # b # r) =
     (if a = CHR ''3'' \<and> b \<in> set ''01'' then Some (30 + digit_val b, r)
      else if a \<in> set ''12'' \<and> is_digit b then Some (10 * digit_val a + digit_val b, r)
      else if a = CHR ''0'' \<and> nonzero_digit b then Some (digit_val b, r)
      else if nonzero_digit a then Some (digit_val a, b # r)
      else if a = CHR '' '' \<and> nonzero_digit b then Some (digit_val b, r)
      else None)"
| "match_d [a] = (if nonzero_digit a then Some (digit_val a, []) else None)"
| "match_d [] = None"

definition strptime_date :: "string \<Rightarrow> pydate option" where
  "strptime_date s =
     (case match_Y s of None \<Rightarrow> None
      | Some (y, s1) \<Rightarrow>
     (case match_lit CHR ''-'' s1 of None \<Rightarrow> None
      | Some s2 \<Rightarrow>
     (case match_m s2 of None \<Rightarrow> None
      | Some (m, s3) \<Rightarrow>
     (case match_lit CHR ''-'' s3 of None \<Rightarrow> None
      | Some s4 \<Rightarrow>
     (case match_d s4 of None \<Rightarrow> None
      | Some (d, s5) \<Rightarrow>
          if s5 \<noteq> [] then None
          else if valid_date \<lparr>year = y, month = m, day = d\<rparr>
          then Some \<lparr>year = y, month = m, day = d\<rparr>
          else None)))))"

subsection \<open>The scorer\<close>

text \<open>\<^verbatim>\<open>days_until_deadline\<close>: \<^verbatim>\<open>None\<close> for a missing, empty or unparseable deadline
  (every exception of the parse is caught), otherwise the days left, at least 0.\<close>

definition days_until_deadline :: "int \<Rightarrow> string option \<Rightarrow> int option" where
  "days_until_deadline today deadline_str =
     (case deadline_str of
        None \<Rightarrow> None
      | Some s \<Rightarrow>
          if s = [] then None
          else (case strptime_date s of
                  None \<Rightarrow> None
                | Some d \<Rightarrow> Some (max 0 (toordinal d - today))))"

text \<open>\<^verbatim>\<open>compute_score\<close>. The division by \<^verbatim>\<open>max_window\<close> raises
  \<^verbatim>\<open>ZeroDivisionError\<close> when the window is 0 and the task has a deadline.\<close>

definition compute_score :: "int \<Rightarrow> int \<Rightarrow> task \<Rightarrow> py_error + real" where
  "compute_score today max_window t =
     (let mins = max 1 (minutes t);
          imp = impact t
      in case days_until_deadline today (deadline t) of
           None \<Rightarrow> Inr ((imp / real_of_int mins) * 1)
         | Some days_left \<Rightarrow>
             if max_window = 0 then Inl ZeroDivisionError
             else Inr ((imp / real_of_int mins)
                        * (1 + max 0 (real_of_int (max_window - days_left) / real_of_int max_window))))"

subsection \<open>Times of day\<close>

text \<open>A \<^verbatim>\<open>time\<close> with hour and minute only is the number of minutes since midnight.
  The constructor \<^verbatim>\<open>time(hour=h, minute=m)\<close> of CPython first converts both arguments
  to a C \<^verbatim>\<open>int\<close> and raises \<^verbatim>\<open>OverflowError\<close> when one does not fit in 32 bits; then
  it raises \<^verbatim>\<open>ValueError\<close> outside 0..23 and 0..59.\<close>

definition c_int :: "int \<Rightarrow> bool" where
  "c_int n = (- 2147483648 \<le> n \<and> n \<le> 2147483647)"

definition mk_time :: "int \<Rightarrow> int \<Rightarrow> py_error + int" where
  "mk_time h m =
     (if c_int h \<and> c_int m
      then (if 0 \<le> h \<and> h \<le> 23 \<and> 0 \<le> m \<and> m \<le> 59 then Inr (h * 60 + m)
            else Inl ValueError)
      else Inl OverflowError)"

text \<open>\<^verbatim>\<open>(datetime.combine(date.today(), tm) + timedelta(minutes=n)).time()\<close>:
  \<^verbatim>\<open>timedelta\<close> raises \<^verbatim>\<open>OverflowError\<close> beyond 999999999 days, the addition raises it
  when the day leaves the years 1..9999 (ordinals 1..3652059).\<close>

definition add_minutes :: "int \<Rightarrow> int \<Rightarrow> int \<Rightarrow> py_error + int" where
  "add_minutes today tm n =
     (if n div 1440 < - 999999999 \<or> 999999999 < n div 1440 then Inl OverflowError
      else let r = today * 1440 + tm + n
           in if r div 1440 < 1 \<or> 3652059 < r div 1440 then Inl OverflowError
              else Inr (r mod 1440))"

text \<open>\<^verbatim>\<open>format_time\<close>: \<^verbatim>\<open>strftime("%H:%M")\<close>.\<close>

definition format_time :: "int \<Rightarrow> string" where
  "format_time tm = two_digits (tm div 60) @ '':'' @ two_digits (tm mod 60)"

subsection \<open>Parsing the start time\<close>

text \<open>\<^verbatim>\<open>str.split(":")\<close>.\<close>

fun split_on :: "char \<Rightarrow> string \<Rightarrow> string list" where
  "split_on c [] = [[]]"
| "split_on c (x # xs) =
     (if x = c then [] # split_on c xs
      else (case split_on c xs of p # ps \<Rightarrow> (x # p) # ps | [] \<Rightarrow> [[x]]))"

text \<open>\<^verbatim>\<open>int(s)\<close> on a string: surrounding whitespace, an optional sign, then decimal
  digits, where single underscores may separate digits. CPython refuses, again with
  \<^verbatim>\<open>ValueError\<close>, a string of more than 4300 digits (the default of
  \<^verbatim>\<open>sys.set_int_max_str_digits\<close>, which the program does not change).\<close>

definition is_space :: "char \<Rightarrow> bool" where
  "is_space c = (c \<in> set [CHR '' '', CHR 0x09, CHR 0x0A, CHR 0x0B, CHR 0x0C, CHR 0x0D])"

definition strip :: "string \<Rightarrow> string" where
  "strip s = rev (dropWhile is_space (rev (dropWhile is_space s)))"

fun read_digits :: "bool \<Rightarrow> int \<Rightarrow> string \<Rightarrow> int option" where
  "read_digits prev acc [] = (if prev then Some acc else None)"
| "read_digits prev acc (c # cs) =
     (if is_digit c then read_digits True (acc * 10 + digit_val c) cs
      else if c = CHR ''_'' \<and> prev then read_digits False acc cs
      else None)"

definition read_int :: "string \<Rightarrow> int option" where
  "read_int ds =
     (if 4300 < length (filter is_digit ds) then None else read_digits False 0 ds)"

definition py_int :: "string \<Rightarrow> int option" where
  "py_int s =
     (case strip s of
        [] \<Rightarrow> None
      | c # cs \<Rightarrow>
          if c = CHR ''-'' then map_option uminus (read_int cs)
          else if c = CHR ''+'' then read_int cs
          else read_int (c # cs))"

text \<open>\<^verbatim>\<open>start_hour, start_min = map(int, start.split(":"))\<close>: a part that is not an
  integer, and any number of parts other than two, raise \<^verbatim>\<open>ValueError\<close>.\<close>

definition parse_start :: "string \<Rightarrow> py_error + (int \<times> int)" where
  "parse_start start =
     (case split_on CHR '':'' start of
        [a, b] \<Rightarrow>
          (case py_int a of
             None \<Rightarrow> Inl ValueError
           | Some h \<Rightarrow> (case py_int b of None \<Rightarrow> Inl ValueError | Some m \<Rightarrow> Inr (h, m)))
      | _ \<Rightarrow> Inl ValueError)"

text \<open>\<^verbatim>\<open>int(x)\<close> on a float truncates towards zero.\<close>

definition int_of_float :: "real \<Rightarrow> int" where
  "int_of_float x = (if 0 \<le> x then \<lfloor>x\<rfloor> else \<lceil>x\<rceil>)"

subsection \<open>The packer\<close>

text \<open>The loop variables of \<^verbatim>\<open>schedule_tasks_for_day\<close>. The field \<open>placed\<close> is a ghost
  field, absent from the source: it records, for each block of \<open>schedule\<close>, the task the
  block was made from. No decision of the model reads it.\<close>

record sched_state =
  current_minutes :: int
  leftover_minutes :: int
  schedule :: "block list"
  placed :: "task list"

text \<open>The two assignments \<^verbatim>\<open>start_time = ...\<close> and \<^verbatim>\<open>end_time = ...\<close>, followed by
  the two calls of \<^verbatim>\<open>format_time\<close>.\<close>

definition slot :: "int \<Rightarrow> int \<Rightarrow> int \<Rightarrow> int \<Rightarrow> int \<Rightarrow> py_error + (string \<times> string)" where
  "slot today start_hour start_min cur n =
     (case mk_time start_hour start_min of
        Inl e \<Rightarrow> Inl e
      | Inr t0 \<Rightarrow>
     (case add_minutes today t0 cur of
        Inl e \<Rightarrow> Inl e
      | Inr start_time \<Rightarrow>
     (case add_minutes today start_time n of
        Inl e \<Rightarrow> Inl e
      | Inr end_time \<Rightarrow> Inr (format_time start_time, format_time end_time))))"

text \<open>The body of the \<^verbatim>\<open>for\<close> loop after the \<^verbatim>\<open>break\<close> test.\<close>

definition body :: "int \<Rightarrow> int \<Rightarrow> int \<Rightarrow> bool \<Rightarrow> task \<Rightarrow> sched_state \<Rightarrow> py_error + sched_state" where
  "body today start_hour start_min allow_split t s =
     (let duration = minutes t in
      if duration \<le> leftover_minutes s then
        (case slot today start_hour start_min (current_minutes s) duration of
           Inl e \<Rightarrow> Inl e
         | Inr (st, en) \<Rightarrow>
             Inr \<lparr>current_minutes = current_minutes s + duration,
                  leftover_minutes = leftover_minutes s - duration,
                  schedule = schedule s @
                    [\<lparr>blk_title = title t, blk_start = st, blk_end = en,
                      blk_minutes = duration, blk_impact = impact t,
                      blk_deadline = deadline t\<rparr>],
                  placed = placed s @ [t]\<rparr>)
      else if allow_split \<and> leftover_minutes s > 0 then
        (let chunk = leftover_minutes s in
         case slot today start_hour start_min (current_minutes s) chunk of
           Inl e \<Rightarrow> Inl e
         | Inr (st, en) \<Rightarrow>
             Inr \<lparr>current_minutes = current_minutes s + chunk,
                  leftover_minutes = 0,
                  schedule = schedule s @
                    [\<lparr>blk_title = title t @ '' (part)'', blk_start = st, blk_end = en,
                      blk_minutes = chunk, blk_impact = impact t,
                      blk_deadline = deadline t\<rparr>],
                  placed = placed s @ [t]\<rparr>)
      else Inr s)"

text \<open>The \<^verbatim>\<open>for\<close> loop, with its \<^verbatim>\<open>break\<close> when no budget is left.\<close>

fun loop :: "int \<Rightarrow> int \<Rightarrow> int \<Rightarrow> bool \<Rightarrow> task list \<Rightarrow> sched_state \<Rightarrow> py_error + sched_state" where
  "loop today start_hour start_min allow_split [] s = Inr s"
| "loop today start_hour start_min allow_split (t # ts) s =
     (if leftover_minutes s \<le> 0 then Inr s
      else (case body today start_hour start_min allow_split t s of
              Inl e \<Rightarrow> Inl e
            | Inr s' \<Rightarrow> loop today start_hour start_min allow_split ts s'))"

text \<open>The first loop: every task (a copy of it) gets its \<^verbatim>\<open>_score\<close>.\<close>

fun assign_scores :: "int \<Rightarrow> int \<Rightarrow> task list \<Rightarrow> py_error + (task \<times> real) list" where
  "assign_scores today w [] = Inr []"
| "assign_scores today w (t # ts) =
     (case compute_score today w t of
        Inl e \<Rightarrow> Inl e
      | Inr sc \<Rightarrow>
          (case assign_scores today w ts of
             Inl e \<Rightarrow> Inl e
           | Inr r \<Rightarrow> Inr ((t, sc) # r)))"

text \<open>\<^verbatim>\<open>sort_key\<close>: a missing or empty deadline is replaced by \<^verbatim>\<open>"9999-12-31"\<close>. Python
  compares the tuples lexicographically and strings by code point; \<^verbatim>\<open>list.sort\<close> is
  stable, as is \<^const>\<open>sort_key\<close>.\<close>

definition deadline_key :: "task \<Rightarrow> string" where
  "deadline_key t =
     (case deadline t of None \<Rightarrow> ''9999-12-31'' | Some s \<Rightarrow> if s = [] then ''9999-12-31'' else s)"

definition sort_key_of :: "task \<times> real \<Rightarrow> real \<times> string \<times> int" where
  "sort_key_of ts = (- snd ts, deadline_key (fst ts), minutes (fst ts))"

definition sorted_tasks :: "(task \<times> real) list \<Rightarrow> (task \<times> real) list" where
  "sorted_tasks scored = sort_key sort_key_of scored"

text \<open>\<^verbatim>\<open>schedule_tasks_for_day\<close> up to the end of its loop; the result is the final
  loop state.\<close>

definition run_schedule ::
  "int \<Rightarrow> task list \<Rightarrow> real \<Rightarrow> string \<Rightarrow> bool \<Rightarrow> int \<Rightarrow> py_error + sched_state" where
  "run_schedule today tasks hours start allow_split urgency_window =
     (case assign_scores today urgency_window tasks of
        Inl e \<Rightarrow> Inl e
      | Inr scored \<Rightarrow>
          (let total_minutes = int_of_float (hours * 60) in
           case parse_start start of
             Inl e \<Rightarrow> Inl e
           | Inr (start_hour, start_min) \<Rightarrow>
               loop today start_hour start_min allow_split (map fst (sorted_tasks scored))
                 \<lparr>current_minutes = 0, leftover_minutes = total_minutes,
                  schedule = [], placed = []\<rparr>))"

definition schedule_tasks_for_day ::
  "int \<Rightarrow> task list \<Rightarrow> real \<Rightarrow> string \<Rightarrow> bool \<Rightarrow> int \<Rightarrow> py_error + block list" where
  "schedule_tasks_for_day today tasks hours start allow_split urgency_window =
     (case run_schedule today tasks hours start allow_split urgency_window of
        Inl e \<Rightarrow> Inl e
      | Inr s \<Rightarrow> Inr (schedule s))"

section \<open>Notions used in the statements\<close>

subsection \<open>Blocks and their source tasks\<close>

text \<open>A block and the task it was made from: impact and deadline are copied; the
  block is either the whole task under its title, or a part of it, marked in the title.\<close>

definition source_of :: "task \<Rightarrow> block \<Rightarrow> bool" where
  "source_of t b =
     (blk_impact b = impact t \<and> blk_deadline b = deadline t
        \<and> (blk_minutes b = minutes t \<and> blk_title b = title t
            \<or> blk_minutes b < minutes t \<and> blk_title b = title t @ '' (part)''))"

text \<open>Block \<open>i\<close> of the schedule is partial: it has fewer minutes than its source task
  has stored.\<close>

definition partial_at :: "sched_state \<Rightarrow> nat \<Rightarrow> bool" where
  "partial_at s i = (blk_minutes (schedule s ! i) < minutes (placed s ! i))"

subsection \<open>The order of the sort key\<close>

text \<open>The comparison of two sort keys, written out: higher score first; on equal scores
  the smaller deadline string first, where a missing or empty deadline counts as the
  string \<^verbatim>\<open>9999-12-31\<close>; on equal deadline strings the fewer stored minutes first.\<close>

definition key_order :: "task \<times> real \<Rightarrow> task \<times> real \<Rightarrow> bool" where
  "key_order a b =
     (snd b < snd a
        \<or> snd a = snd b
            \<and> (deadline_key (fst a) < deadline_key (fst b)
                \<or> deadline_key (fst a) = deadline_key (fst b)
                    \<and> minutes (fst a) \<le> minutes (fst b)))"

subsection \<open>The order of the specification\<close>

text \<open>The ISO form \<^verbatim>\<open>YYYY-MM-DD\<close> of a date (\<^verbatim>\<open>date.isoformat\<close>), the form in which the
  data model stores a deadline.\<close>

definition iso_date :: "pydate \<Rightarrow> string" where
  "iso_date d = four_digits (year d) @ ''-'' @ two_digits (month d) @ ''-'' @ two_digits (day d)"

text \<open>A task of the data model: its deadline is absent (or empty), or the ISO form of
  the date it parses to.\<close>

definition iso_deadline :: "task \<Rightarrow> bool" where
  "iso_deadline t =
     (case deadline t of
        None \<Rightarrow> True
      | Some s \<Rightarrow>
          s = [] \<or> (case strptime_date s of None \<Rightarrow> False | Some d \<Rightarrow> s = iso_date d))"

text \<open>The date a task is due, for the order of the specification: the deadline, or the
  last day of the year 9999 when the task has none.\<close>

definition due_date :: "task \<Rightarrow> pydate" where
  "due_date t =
     (case deadline t of
        None \<Rightarrow> \<lparr>year = 9999, month = 12, day = 31\<rparr>
      | Some s \<Rightarrow>
          (case strptime_date s of
             None \<Rightarrow> \<lparr>year = 9999, month = 12, day = 31\<rparr>
           | Some d \<Rightarrow> d))"

text \<open>The order of the specification on scored tasks: higher score first; on equal
  scores the earlier due date first; on equal due dates the shorter stored duration
  first.\<close>

definition spec_order :: "task \<times> real \<Rightarrow> task \<times> real \<Rightarrow> bool" where
  "spec_order a b =
     (snd b < snd a
        \<or> snd a = snd b
            \<and> (toordinal (due_date (fst a)) < toordinal (due_date (fst b))
                \<or> due_date (fst a) = due_date (fst b) \<and> minutes (fst a) \<le> minutes (fst b)))"

section \<open>Invariants of the loop\<close>

text \<open>The budget: what is left plus what is scheduled is the budget, and the budget left
  is never negative once a block exists.\<close>

definition budget_inv :: "int \<Rightarrow> sched_state \<Rightarrow> bool" where
  "budget_inv budget s =
     (leftover_minutes s + sum_list (map blk_minutes (schedule s)) = budget
        \<and> (0 \<le> leftover_minutes s \<or> schedule s = []))"

text \<open>Partial blocks: every block has its source task, and a partial block is the last
  one, made with splitting on, and leaves no budget.\<close>

definition partial_inv :: "task list \<Rightarrow> bool \<Rightarrow> sched_state \<Rightarrow> bool" where
  "partial_inv tasks sp s =
     (length (placed s) = length (schedule s) \<and> set (placed s) \<subseteq> set tasks
        \<and> (\<forall>i < length (schedule s).
              source_of (placed s ! i) (schedule s ! i)
                \<and> (partial_at s i \<longrightarrow>
                      Suc i = length (schedule s) \<and> sp \<and> leftover_minutes s = 0)))"

text \<open>The times of a schedule that starts at minute \<open>c\<close> (counted from midnight of the
  first day): every block starts where the one before it ends, modulo one day.\<close>

fun timeline :: "int \<Rightarrow> block list \<Rightarrow> bool" where
  "timeline c [] = True"
| "timeline c (b # bs) =
     (blk_start b = format_time (c mod 1440)
        \<and> blk_end b = format_time ((c + blk_minutes b) mod 1440)
        \<and> timeline (c + blk_minutes b) bs)"

text \<open>The invariant of the loop for the times of the blocks.\<close>

definition time_inv :: "int \<Rightarrow> int \<Rightarrow> sched_state \<Rightarrow> bool" where
  "time_inv h m s =
     (timeline (h * 60 + m) (schedule s)
        \<and> current_minutes s = sum_list (map blk_minutes (schedule s))
        \<and> (schedule s = [] \<or> 0 \<le> h \<and> h \<le> 23 \<and> 0 \<le> m \<and> m \<le> 59))"

section \<open>Examples\<close>

text \<open>Tasks for the concrete runs below. In those runs today is the ordinal 738886, the
  first of January 2024, and the urgency window is 7.\<close>

definition ex_write :: task where
  "ex_write = \<lparr>task_id = 1, title = ''Write report'', minutes = 300, impact = 2,
   deadline = None, task_notes = ''''\<rparr>"

definition ex_review :: task where
  "ex_review = \<lparr>task_id = 2, title = ''Review code'', minutes = 300, impact = 2,
   deadline = None, task_notes = ''''\<rparr>"

definition ex_long :: task where
  "ex_long = \<lparr>task_id = 3, title = ''Plan quarter'', minutes = 120, impact = 4,
     deadline = None, task_notes = ''''\<rparr>"

definition ex_plain :: task where
  "ex_plain = \<lparr>task_id = 4, title = ''Call bank'', minutes = 60, impact = 2,
     deadline = None, task_notes = ''''\<rparr>"

definition ex_dated :: task where
  "ex_dated = \<lparr>task_id = 5, title = ''Renew passport'', minutes = 60, impact = 2,
     deadline = Some ''2030-01-01'', task_notes = ''''\<rparr>"

definition ex_small :: task where
  "ex_small = \<lparr>task_id = 6, title = ''File receipts'', minutes = 100, impact = 1 / 4,
     deadline = None, task_notes = ''''\<rparr>"

text \<open>Two tasks due in January 2030, one with a deadline that is not zero-padded.\<close>

definition ex_jan5 :: task where
  "ex_jan5 = \<lparr>task_id = 10, title = ''Book flights'', minutes = 60, impact = 2,
     deadline = Some ''2030-1-5'', task_notes = ''''\<rparr>"

definition ex_jan10 :: task where
  "ex_jan10 = \<lparr>task_id = 11, title = ''Pack bags'', minutes = 60, impact = 2,
     deadline = Some ''2030-01-10'', task_notes = ''''\<rparr>"

definition ex_bad_date :: task where
  "ex_bad_date = \<lparr>task_id = 7, title = ''Water plants'', minutes = 0, impact = 3,
     deadline = Some ''2024-02-30'', task_notes = ''''\<rparr>"

definition ex_due :: task where
  "ex_due = \<lparr>task_id = 8, title = ''Send invoice'', minutes = 60, impact = 2,
     deadline = Some ''2024-01-01'', task_notes = ''''\<rparr>"

definition ex_zero :: task where
  "ex_zero = \<lparr>task_id = 9, title = ''Stretch'', minutes = 0, impact = 1,
     deadline = None, task_notes = ''''\<rparr>"

text \<open>The loop state after the first task of 300 minutes is placed at 09:00 in a budget
  of 480 minutes.\<close>

definition ex_state :: sched_state where
  "ex_state = \<lparr>current_minutes = 300, leftover_minutes = 180,
     schedule = [\<lparr>blk_title = ''Write report'', blk_start = ''09:00'', blk_end = ''14:00'',
                  blk_minutes = 300, blk_impact = 2, blk_deadline = None\<rparr>],
     placed = [ex_write]\<rparr>"

section \<open>Lemmas\<close>

subsection \<open>The loop and its invariants\<close>

lemma add_minutes_Inr:
  "add_minutes today tm n = Inr r \<Longrightarrow> r = (tm + n) mod 1440"
proof -
  have "(today * 1440 + tm + n) mod 1440 = (tm + n) mod 1440"
    by (simp add: add.assoc)
  then show "add_minutes today tm n = Inr r \<Longrightarrow> r = (tm + n) mod 1440"
    by (auto simp: add_minutes_def Let_def split: if_splits)
qed

lemma slot_Inr:
  assumes "slot today h m cur n = Inr (st, en)"
  shows "st = format_time ((h * 60 + m + cur) mod 1440)
       \<and> en = format_time ((h * 60 + m + cur + n) mod 1440)"
proof -
  from assms obtain t0 t1 t2 where
    t0: "mk_time h m = Inr t0" and t1: "add_minutes today t0 cur = Inr t1" and
    t2: "add_minutes today t1 n = Inr t2" and st: "st = format_time t1" and en: "en = format_time t2"
    by (auto simp: slot_def split: sum.splits)
  from t0 have "t0 = h * 60 + m" by (auto simp: mk_time_def split: if_splits)
  moreover from t1 have "t1 = (t0 + cur) mod 1440" by (rule add_minutes_Inr)
  moreover from t2 have "t2 = (t1 + n) mod 1440" by (rule add_minutes_Inr)
  ultimately show ?thesis using st en by (simp add: mod_add_left_eq)
qed

text \<open>What one pass through the loop body does to the state.\<close>

lemma body_cases:
  assumes "body today h m sp t s = Inr s'"
  shows "s' = s \<and> leftover_minutes s < minutes t \<and> \<not> (sp \<and> 0 < leftover_minutes s)
     \<or> (\<exists>b. s' = \<lparr>current_minutes = current_minutes s + blk_minutes b,
                  leftover_minutes = leftover_minutes s - blk_minutes b,
                  schedule = schedule s @ [b], placed = placed s @ [t]\<rparr>
            \<and> blk_start b = format_time ((h * 60 + m + current_minutes s) mod 1440)
            \<and> blk_end b = format_time ((h * 60 + m + current_minutes s + blk_minutes b) mod 1440)
            \<and> blk_impact b = impact t \<and> blk_deadline b = deadline t
            \<and> (blk_minutes b = minutes t \<and> minutes t \<le> leftover_minutes s \<and> blk_title b = title t
                \<or> blk_minutes b = leftover_minutes s \<and> leftover_minutes s < minutes t
                    \<and> 0 < leftover_minutes s \<and> sp \<and> blk_title b = title t @ '' (part)''))"
proof (cases "minutes t \<le> leftover_minutes s")
  case True
  with assms obtain st en where sl: "slot today h m (current_minutes s) (minutes t) = Inr (st, en)"
    and s': "s' = \<lparr>current_minutes = current_minutes s + minutes t,
                  leftover_minutes = leftover_minutes s - minutes t,
                  schedule = schedule s @
                    [\<lparr>blk_title = title t, blk_start = st, blk_end = en,
                      blk_minutes = minutes t, blk_impact = impact t,
                      blk_deadline = deadline t\<rparr>],
                  placed = placed s @ [t]\<rparr>"
    by (auto simp: body_def Let_def split: sum.splits)
  from slot_Inr[OF sl] s' True show ?thesis by auto
next
  case False
  show ?thesis
  proof (cases "sp \<and> 0 < leftover_minutes s")
    case True
    with False assms obtain st en where
      sl: "slot today h m (current_minutes s) (leftover_minutes s) = Inr (st, en)"
      and s': "s' = \<lparr>current_minutes = current_minutes s + leftover_minutes s,
                  leftover_minutes = 0,
                  schedule = schedule s @
                    [\<lparr>blk_title = title t @ '' (part)'', blk_start = st, blk_end = en,
                      blk_minutes = leftover_minutes s, blk_impact = impact t,
                      blk_deadline = deadline t\<rparr>],
                  placed = placed s @ [t]\<rparr>"
      by (auto simp: body_def Let_def split: sum.splits)
    from slot_Inr[OF sl] s' True False show ?thesis by auto
  next
    case nosplit: False
    with False assms have "s' = s" by (auto simp: body_def Let_def)
    with False nosplit show ?thesis by auto
  qed
qed

lemma loop_invariant:
  assumes "loop today h m sp ts s = Inr r" and "P s"
    and "\<And>t s s'. t \<in> set ts \<Longrightarrow> P s \<Longrightarrow> 0 < leftover_minutes s
            \<Longrightarrow> body today h m sp t s = Inr s' \<Longrightarrow> P s'"
  shows "P r"
  using assms
proof (induction ts arbitrary: s)
  case Nil
  then show ?case by simp
next
  case (Cons t ts)
  show ?case
  proof (cases "leftover_minutes s \<le> 0")
    case True
    with Cons.prems show ?thesis by simp
  next
    case False
    with Cons.prems(1) obtain s' where b: "body today h m sp t s = Inr s'"
      and l: "loop today h m sp ts s' = Inr r"
      by (auto split: sum.splits)
    have "P s'" using Cons.prems(3)[of t s s'] Cons.prems(2) False b by simp
    then show ?thesis
    proof (rule Cons.IH[OF l])
      fix u s1 s2
      assume "u \<in> set ts" "P s1" "0 < leftover_minutes s1" "body today h m sp u s1 = Inr s2"
      then show "P s2" using Cons.prems(3)[of u s1 s2] by simp
    qed
  qed
qed

lemma assign_scores_Inr:
  "assign_scores today w tasks = Inr scored \<Longrightarrow>
     map fst scored = tasks \<and> (\<forall>p \<in> set scored. compute_score today w (fst p) = Inr (snd p))"
  by (induction tasks arbitrary: scored) (auto split: sum.splits)

lemma set_sorted_tasks:
  "assign_scores today w tasks = Inr scored \<Longrightarrow> set (map fst (sorted_tasks scored)) = set tasks"
proof -
  assume a: "assign_scores today w tasks = Inr scored"
  have "set (map fst (sorted_tasks scored)) = set (map fst scored)"
    by (simp add: sorted_tasks_def)
  with assign_scores_Inr[OF a] show ?thesis by simp
qed

lemma run_schedule_Inr:
  assumes "run_schedule today tasks hours start sp w = Inr r"
  obtains scored h m where "assign_scores today w tasks = Inr scored"
    and "parse_start start = Inr (h, m)"
    and "loop today h m sp (map fst (sorted_tasks scored))
           \<lparr>current_minutes = 0, leftover_minutes = int_of_float (hours * 60),
            schedule = [], placed = []\<rparr> = Inr r"
  using assms by (auto simp: run_schedule_def Let_def split: sum.splits)

lemma run_invariant:
  assumes run: "run_schedule today tasks hours start sp w = Inr r"
    and init: "P \<lparr>current_minutes = 0, leftover_minutes = int_of_float (hours * 60),
                 schedule = [], placed = []\<rparr>"
    and step: "\<And>t s s' h m. t \<in> set tasks \<Longrightarrow> parse_start start = Inr (h, m) \<Longrightarrow> P s
            \<Longrightarrow> 0 < leftover_minutes s \<Longrightarrow> body today h m sp t s = Inr s' \<Longrightarrow> P s'"
  shows "P r"
proof -
  from run obtain scored h m where sc: "assign_scores today w tasks = Inr scored"
    and ps: "parse_start start = Inr (h, m)"
    and lp: "loop today h m sp (map fst (sorted_tasks scored))
           \<lparr>current_minutes = 0, leftover_minutes = int_of_float (hours * 60),
            schedule = [], placed = []\<rparr> = Inr r"
    by (rule run_schedule_Inr)
  show ?thesis
  proof (rule loop_invariant[where P = P, OF lp init])
    fix t s s'
    assume "t \<in> set (map fst (sorted_tasks scored))" "P s" "0 < leftover_minutes s"
      "body today h m sp t s = Inr s'"
    then show "P s'" using step[of t h m s s'] ps set_sorted_tasks[OF sc] by simp
  qed
qed

lemma schedule_tasks_for_day_Inr:
  "schedule_tasks_for_day today tasks hours start sp w = Inr bs \<Longrightarrow>
     \<exists>r. run_schedule today tasks hours start sp w = Inr r \<and> schedule r = bs"
  by (auto simp: schedule_tasks_for_day_def split: sum.splits)

subsection \<open>The budget and the partial block\<close>

lemma budget_inv_body:
  assumes "budget_inv budget s" "0 < leftover_minutes s" "body today h m sp t s = Inr s'"
  shows "budget_inv budget s'"
  using body_cases[OF assms(3)] assms(1,2) by (auto simp: budget_inv_def)

lemma budget_inv_run:
  assumes "run_schedule today tasks hours start sp w = Inr r"
  shows "budget_inv (int_of_float (hours * 60)) r"
proof (rule run_invariant[where P = "budget_inv (int_of_float (hours * 60))", OF assms])
  show "budget_inv (int_of_float (hours * 60))
          \<lparr>current_minutes = 0, leftover_minutes = int_of_float (hours * 60),
           schedule = [], placed = []\<rparr>"
    by (simp add: budget_inv_def)
next
  fix t s s' h m
  assume "budget_inv (int_of_float (hours * 60)) s" "0 < leftover_minutes s"
    "body today h m sp t s = Inr s'"
  then show "budget_inv (int_of_float (hours * 60)) s'" by (rule budget_inv_body)
qed

lemma partial_inv_body:
  assumes inv: "partial_inv tasks sp s" and pos: "0 < leftover_minutes s"
    and t: "t \<in> set tasks" and b: "body today h m sp t s = Inr s'"
  shows "partial_inv tasks sp s'"
proof -
  from inv pos have full: "\<forall>i < length (schedule s). \<not> partial_at s i"
    by (auto simp: partial_inv_def)
  from body_cases[OF b] consider (skip) "s' = s"
    | (emit) b where "s' = \<lparr>current_minutes = current_minutes s + blk_minutes b,
                  leftover_minutes = leftover_minutes s - blk_minutes b,
                  schedule = schedule s @ [b], placed = placed s @ [t]\<rparr>"
      "blk_impact b = impact t" "blk_deadline b = deadline t"
      "blk_minutes b = minutes t \<and> minutes t \<le> leftover_minutes s \<and> blk_title b = title t
                \<or> blk_minutes b = leftover_minutes s \<and> leftover_minutes s < minutes t
                    \<and> 0 < leftover_minutes s \<and> sp \<and> blk_title b = title t @ '' (part)''"
    by blast
  then show ?thesis
  proof cases
    case skip
    with inv show ?thesis by simp
  next
    case (emit b)
    note s' = emit(1) and imp = emit(2) and dl = emit(3) and kind = emit(4)
    from inv have len: "length (placed s) = length (schedule s)"
      by (simp add: partial_inv_def)
    have src: "source_of t b" using imp dl kind by (auto simp: source_of_def)
    have last: "blk_minutes b < minutes t \<longrightarrow> sp \<and> leftover_minutes s - blk_minutes b = 0"
      using kind by auto
    have A: "length (placed s') = length (schedule s')" using len s' by simp
    have B: "set (placed s') \<subseteq> set tasks" using inv t s' by (auto simp: partial_inv_def)
    have C: "source_of (placed s' ! i) (schedule s' ! i)" if "i < length (schedule s')" for i
      using that inv src len s' by (auto simp: partial_inv_def nth_append less_Suc_eq)
    have D: "Suc i = length (schedule s') \<and> sp \<and> leftover_minutes s' = 0"
      if i: "i < length (schedule s')" and p: "partial_at s' i" for i
    proof -
      have "i = length (schedule s)"
      proof (rule ccontr)
        assume "i \<noteq> length (schedule s)"
        with i s' have "i < length (schedule s)" by simp
        with p s' len have "partial_at s i" by (simp add: partial_at_def nth_append)
        with full \<open>i < length (schedule s)\<close> show False by simp
      qed
      with p s' len last show ?thesis by (simp add: partial_at_def nth_append)
    qed
    show ?thesis
      unfolding partial_inv_def using A B C D by blast
  qed
qed

lemma partial_inv_run:
  assumes "run_schedule today tasks hours start sp w = Inr r"
  shows "partial_inv tasks sp r"
proof (rule run_invariant[where P = "partial_inv tasks sp", OF assms])
  show "partial_inv tasks sp
          \<lparr>current_minutes = 0, leftover_minutes = int_of_float (hours * 60),
           schedule = [], placed = []\<rparr>"
    by (simp add: partial_inv_def)
next
  fix t s s' h m
  assume "t \<in> set tasks" "partial_inv tasks sp s" "0 < leftover_minutes s"
    "body today h m sp t s = Inr s'"
  then show "partial_inv tasks sp s'" using partial_inv_body by blast
qed

subsection \<open>Decimal digits and formatted times\<close>

lemma of_char_digit_char: "0 \<le> n \<Longrightarrow> n \<le> 9 \<Longrightarrow> of_char (digit_char n) = 48 + nat n"
  by (simp add: digit_char_def)

lemma digit_char_less:
  "0 \<le> a \<Longrightarrow> a \<le> 9 \<Longrightarrow> 0 \<le> b \<Longrightarrow> b \<le> 9 \<Longrightarrow> (digit_char a < digit_char b) = (a < b)"
  by (auto simp: less_char_def of_char_digit_char)

lemma digit_char_eq:
  assumes "0 \<le> a" "a \<le> 9" "0 \<le> b" "b \<le> 9"
  shows "(digit_char a = digit_char b) = (a = b)"
proof
  assume "digit_char a = digit_char b"
  then have "(of_char (digit_char a) :: nat) = of_char (digit_char b)" by simp
  with assms show "a = b" by (simp add: of_char_digit_char)
qed simp

text \<open>Comparing two integers by quotient, then remainder, is comparing them.\<close>

lemma div_mod_lex:
  fixes a b k :: int
  assumes k: "0 < k"
  shows "(a div k < b div k \<or> a div k = b div k \<and> a mod k < b mod k) = (a < b)"
proof (cases "a div k = b div k")
  case True
  have "a = k * (a div k) + a mod k" by simp
  moreover have "b = k * (b div k) + b mod k" by simp
  then have "b = k * (a div k) + b mod k" by (simp only: True)
  ultimately have "(a mod k < b mod k) = (a < b)" by linarith
  with True show ?thesis by simp
next
  case False
  have "a div k < b div k \<Longrightarrow> a < b"
    using zdiv_mono1[of b a k] k by linarith
  moreover have "a < b \<Longrightarrow> a div k < b div k"
    using zdiv_mono1[of a b k] k False by linarith
  ultimately show ?thesis using False by blast
qed

lemma div_mod_eq_iff:
  fixes a b k :: int
  shows "(a div k = b div k \<and> a mod k = b mod k) = (a = b)"
proof
  assume h: "a div k = b div k \<and> a mod k = b mod k"
  have "a = k * (a div k) + a mod k" by simp
  also have "\<dots> = k * (b div k) + b mod k" using h by simp
  also have "\<dots> = b" by simp
  finally show "a = b" .
qed simp

lemma two_digits_less:
  assumes "0 \<le> a" "a < 100" "0 \<le> b" "b < 100"
  shows "(two_digits a < two_digits b) = (a < b)"
proof -
  have e: "a div 10 mod 10 = a div 10" "b div 10 mod 10 = b div 10"
    using assms by simp_all
  have d: "0 \<le> a div 10" "a div 10 \<le> 9" "0 \<le> a mod 10" "a mod 10 \<le> 9"
    "0 \<le> b div 10" "b div 10 \<le> 9" "0 \<le> b mod 10" "b mod 10 \<le> 9"
    using assms by simp_all
  have "(two_digits a < two_digits b) =
     (a div 10 < b div 10 \<or> a div 10 = b div 10 \<and> a mod 10 < b mod 10)"
    by (simp add: two_digits_def e digit_char_less[OF d(1,2,5,6)] digit_char_less[OF d(3,4,7,8)]
        digit_char_eq[OF d(1,2,5,6)])
  also have "\<dots> = (a < b)" by (rule div_mod_lex) simp
  finally show ?thesis .
qed

lemma two_digits_eq:
  assumes "0 \<le> a" "a < 100" "0 \<le> b" "b < 100"
  shows "(two_digits a = two_digits b) = (a = b)"
proof -
  have e: "a div 10 mod 10 = a div 10" "b div 10 mod 10 = b div 10"
    using assms by simp_all
  have d: "0 \<le> a div 10" "a div 10 \<le> 9" "0 \<le> a mod 10" "a mod 10 \<le> 9"
    "0 \<le> b div 10" "b div 10 \<le> 9" "0 \<le> b mod 10" "b mod 10 \<le> 9"
    using assms by simp_all
  have "(two_digits a = two_digits b) =
     (a div 10 = b div 10 \<and> a mod 10 = b mod 10)"
    by (simp add: two_digits_def e digit_char_eq[OF d(1,2,5,6)] digit_char_eq[OF d(3,4,7,8)])
  also have "\<dots> = (a = b)" by (rule div_mod_eq_iff)
  finally show ?thesis .
qed

lemma length_two_digits: "length (two_digits n) = 2"
  by (simp add: two_digits_def)

lemma less_append_same_length:
  fixes xs ys :: "'a::linorder list"
  shows "length xs = length ys \<Longrightarrow> (xs @ us < ys @ vs) = (xs < ys \<or> xs = ys \<and> us < vs)"
  by (induction xs ys rule: list_induct2) auto

lemma format_time_less:
  assumes "0 \<le> a" "a < 1440" "0 \<le> b" "b < 1440"
  shows "(format_time a < format_time b) = (a < b)"
proof -
  have r: "0 \<le> a div 60" "a div 60 < 100" "0 \<le> b div 60" "b div 60 < 100"
    "0 \<le> a mod 60" "a mod 60 < 100" "0 \<le> b mod 60" "b mod 60 < 100"
    using assms by simp_all
  have "(format_time a < format_time b) =
      (two_digits (a div 60) < two_digits (b div 60)
        \<or> two_digits (a div 60) = two_digits (b div 60) \<and> two_digits (a mod 60) < two_digits (b mod 60))"
    by (simp add: format_time_def less_append_same_length length_two_digits)
  also have "\<dots> = (a div 60 < b div 60 \<or> a div 60 = b div 60 \<and> a mod 60 < b mod 60)"
    by (simp add: two_digits_less[OF r(1,2,3,4)] two_digits_less[OF r(5,6,7,8)]
        two_digits_eq[OF r(1,2,3,4)])
  also have "\<dots> = (a < b)" by (rule div_mod_lex) simp
  finally show ?thesis .
qed

subsection \<open>The times of the blocks\<close>

lemma timeline_append:
  "timeline c (xs @ [b]) =
     (timeline c xs
        \<and> blk_start b = format_time ((c + sum_list (map blk_minutes xs)) mod 1440)
        \<and> blk_end b = format_time ((c + sum_list (map blk_minutes xs) + blk_minutes b) mod 1440))"
  by (induction xs arbitrary: c) (auto simp: add.assoc)

lemma timeline_nth:
  "timeline c bs \<Longrightarrow> i < length bs \<Longrightarrow>
     blk_start (bs ! i) = format_time ((c + sum_list (map blk_minutes (take i bs))) mod 1440)
       \<and> blk_end (bs ! i) =
           format_time ((c + sum_list (map blk_minutes (take i bs)) + blk_minutes (bs ! i)) mod 1440)"
proof (induction bs arbitrary: c i)
  case Nil
  then show ?case by simp
next
  case (Cons b bs)
  show ?case
  proof (cases i)
    case 0
    with Cons.prems show ?thesis by simp
  next
    case (Suc j)
    with Cons.prems have "timeline (c + blk_minutes b) bs" "j < length bs" by simp_all
    from Cons.IH[OF this] Suc show ?thesis by (simp add: add.assoc)
  qed
qed

lemma body_start_range:
  "body today h m sp t s = Inr s' \<Longrightarrow> s' = s \<or> 0 \<le> h \<and> h \<le> 23 \<and> 0 \<le> m \<and> m \<le> 59"
  by (auto simp: body_def slot_def mk_time_def Let_def split: if_splits sum.splits)

lemma time_inv_body:
  assumes inv: "time_inv h m s" and b: "body today h m sp t s = Inr s'"
  shows "time_inv h m s'"
proof -
  from body_cases[OF b] consider (skip) "s' = s"
    | (emit) b where "s' = \<lparr>current_minutes = current_minutes s + blk_minutes b,
                  leftover_minutes = leftover_minutes s - blk_minutes b,
                  schedule = schedule s @ [b], placed = placed s @ [t]\<rparr>"
      "blk_start b = format_time ((h * 60 + m + current_minutes s) mod 1440)"
      "blk_end b = format_time ((h * 60 + m + current_minutes s + blk_minutes b) mod 1440)"
    by blast
  then show ?thesis
  proof cases
    case skip
    with inv show ?thesis by simp
  next
    case (emit b)
    from emit(1) have "schedule s' \<noteq> schedule s" by simp
    then have "s' \<noteq> s" by auto
    with body_start_range[OF assms(2)] have "0 \<le> h \<and> h \<le> 23 \<and> 0 \<le> m \<and> m \<le> 59"
      by simp
    with inv emit show ?thesis by (simp add: time_inv_def timeline_append)
  qed
qed

lemma time_inv_run:
  assumes "run_schedule today tasks hours start sp w = Inr r"
    and "parse_start start = Inr (h, m)"
  shows "time_inv h m r"
proof (rule run_invariant[where P = "time_inv h m", OF assms(1)])
  show "time_inv h m
          \<lparr>current_minutes = 0, leftover_minutes = int_of_float (hours * 60),
           schedule = [], placed = []\<rparr>"
    by (simp add: time_inv_def)
next
  fix t s s' h' m'
  assume "parse_start start = Inr (h', m')" "time_inv h m s" "body today h' m' sp t s = Inr s'"
  with assms(2) show "time_inv h m s'" using time_inv_body by simp
qed

subsection \<open>The calendar\<close>

lemma month_cases:
  fixes m :: int
  assumes "1 \<le> m" "m \<le> 12"
  obtains "m = 1" | "m = 2" | "m = 3" | "m = 4" | "m = 5" | "m = 6"
    | "m = 7" | "m = 8" | "m = 9" | "m = 10" | "m = 11" | "m = 12"
proof -
  have e: "[1..12::int] = [1, 2, 3, 4, 5, 6, 7, 8, 9, 10, 11, 12]"
    by code_simp
  from assms have "m \<in> set [1..12]" by simp
  then have "m = 1 \<or> m = 2 \<or> m = 3 \<or> m = 4 \<or> m = 5 \<or> m = 6
      \<or> m = 7 \<or> m = 8 \<or> m = 9 \<or> m = 10 \<or> m = 11 \<or> m = 12"
    unfolding e by simp
  then show thesis using that by blast
qed

lemma days_in_month_bounds:
  assumes "1 \<le> m" "m \<le> 12"
  shows "28 \<le> days_in_month y m \<and> days_in_month y m \<le> 31"
  using assms by (cases m rule: month_cases) (simp_all add: days_in_month_def)

lemma days_before_month_Suc:
  assumes "1 \<le> m" "m < 12"
  shows "days_before_month y (m + 1) = days_before_month y m + days_in_month y m"
proof -
  from assms have "1 \<le> m" "m \<le> 12" by simp_all
  then show ?thesis using assms(2)
    by (cases m rule: month_cases) (simp_all add: days_before_month_def days_in_month_def)
qed

lemma days_before_month_mono:
  assumes "1 \<le> m1" "m1 \<le> m2" "m2 \<le> 12"
  shows "days_before_month y m1 \<le> days_before_month y m2"
  using assms(2,3)
proof (induction m2 rule: int_ge_induct)
  case base
  then show ?case by simp
next
  case (step i)
  then have "1 \<le> i" "i < 12" using assms(1) by simp_all
  from days_before_month_Suc[OF this] days_in_month_bounds[of i y] step \<open>1 \<le> i\<close>
  show ?case by simp
qed

lemma div_pred:
  fixes y k :: int
  assumes "0 < k"
  shows "(y - 1) div k = y div k - (if y mod k = 0 then 1 else 0)"
proof (cases "y mod k = 0")
  case True
  have "y = k * (y div k) + y mod k" by simp
  with True have "y - 1 = k * (y div k - 1) + (k - 1)" by (simp add: algebra_simps)
  then have "(y - 1) div k = y div k - 1"
    by (rule int_div_pos_eq) (use assms in simp_all)
  with True show ?thesis by simp
next
  case False
  have "0 \<le> y mod k" "y mod k < k" using assms by simp_all
  with False have m: "0 \<le> y mod k - 1" "y mod k - 1 < k" by simp_all
  have "y - 1 = k * (y div k) + (y mod k - 1)" by simp
  then have "(y - 1) div k = y div k"
    using m by (rule int_div_pos_eq)
  with False show ?thesis by simp
qed

lemma days_before_year_Suc:
  "days_before_year (y + 1) = days_before_year y + 365 + (if is_leap y then 1 else 0)"
proof -
  have d: "y mod 400 = 0 \<Longrightarrow> y mod 100 = 0" by auto
  have e: "y mod 100 = 0 \<Longrightarrow> y mod 4 = 0" by auto
  show ?thesis
    using d e by (auto simp add: days_before_year_def is_leap_def div_pred[of 4 y] div_pred[of 100 y] div_pred[of 400 y])
qed

lemma days_before_year_mono:
  assumes "y1 \<le> y2"
  shows "days_before_year y1 \<le> days_before_year y2"
  using assms
proof (induction y2 rule: int_ge_induct)
  case base
  then show ?case by simp
next
  case (step i)
  then show ?case by (simp add: days_before_year_Suc)
qed

lemma days_before_month_nonneg:
  assumes "1 \<le> m" "m \<le> 12"
  shows "0 \<le> days_before_month y m"
  using assms by (cases m rule: month_cases) (simp_all add: days_before_month_def)

lemma day_of_year_le:
  assumes "1 \<le> m" "m \<le> 12"
  shows "days_before_month y m + days_in_month y m \<le> 365 + (if is_leap y then 1 else 0)"
  using assms by (cases m rule: month_cases) (simp_all add: days_before_month_def days_in_month_def)

text \<open>The ordinal of a date grows with year, then month, then day.\<close>

lemma toordinal_less:
  assumes a: "valid_date a" and b: "valid_date b"
    and lex: "year a < year b
        \<or> year a = year b \<and> (month a < month b \<or> month a = month b \<and> day a < day b)"
  shows "toordinal a < toordinal b"
proof -
  from a have ma: "1 \<le> month a" "month a \<le> 12" and da: "1 \<le> day a"
    "day a \<le> days_in_month (year a) (month a)"
    by (simp_all add: valid_date_def)
  from b have mb: "1 \<le> month b" "month b \<le> 12" and db: "1 \<le> day b"
    by (simp_all add: valid_date_def)
  consider (y) "year a < year b" | (m) "year a = year b" "month a < month b"
    | (d) "year a = year b" "month a = month b" "day a < day b"
    using lex by blast
  then show ?thesis
  proof cases
    case y
    have "toordinal a \<le> days_before_year (year a) + 365 + (if is_leap (year a) then 1 else 0)"
      using day_of_year_le[OF ma, of "year a"] da by (simp add: toordinal_def)
    also have "\<dots> = days_before_year (year a + 1)" by (simp add: days_before_year_Suc)
    also have "\<dots> \<le> days_before_year (year b)" using y by (intro days_before_year_mono) simp
    also have "\<dots> < toordinal b"
      using days_before_month_nonneg[OF mb, of "year b"] db by (simp add: toordinal_def)
    finally show ?thesis .
  next
    case m
    have lt: "month a < 12" using m(2) mb by simp
    have "days_before_month (year a) (month a) + day a
            \<le> days_before_month (year a) (month a + 1)"
      using days_before_month_Suc[OF ma(1) lt, of "year a"] da by simp
    also have "\<dots> \<le> days_before_month (year a) (month b)"
      using m(2) ma mb by (intro days_before_month_mono) simp_all
    finally show ?thesis using m(1) db by (simp add: toordinal_def)
  next
    case d
    then show ?thesis by (simp add: toordinal_def)
  qed
qed

lemma toordinal_less_iff:
  assumes a: "valid_date a" and b: "valid_date b"
  shows "(toordinal a < toordinal b) =
     (year a < year b
        \<or> year a = year b \<and> (month a < month b \<or> month a = month b \<and> day a < day b))"
proof
  assume lt: "toordinal a < toordinal b"
  show "year a < year b
        \<or> year a = year b \<and> (month a < month b \<or> month a = month b \<and> day a < day b)"
  proof (rule ccontr)
    assume n: "\<not> ?thesis"
    then have "year b < year a
        \<or> year b = year a \<and> (month b < month a \<or> month b = month a \<and> day b < day a)
        \<or> (year a = year b \<and> month a = month b \<and> day a = day b)"
      by linarith
    then show False
    proof (elim disjE)
      assume "year b < year a"
      then have "toordinal b < toordinal a" by (intro toordinal_less[OF b a]) simp
      with lt show False by simp
    next
      assume "year b = year a \<and> (month b < month a \<or> month b = month a \<and> day b < day a)"
      then have "toordinal b < toordinal a" by (intro toordinal_less[OF b a]) simp
      with lt show False by simp
    next
      assume "year a = year b \<and> month a = month b \<and> day a = day b"
      then have "toordinal a = toordinal b" by (simp add: toordinal_def)
      with lt show False by simp
    qed
  qed
next
  assume "year a < year b
        \<or> year a = year b \<and> (month a < month b \<or> month a = month b \<and> day a < day b)"
  then show "toordinal a < toordinal b" by (rule toordinal_less[OF a b])
qed

subsection \<open>ISO dates and the sort key\<close>

lemma four_digits_less:
  assumes "0 \<le> a" "a < 10000" "0 \<le> b" "b < 10000"
  shows "(four_digits a < four_digits b) = (a < b)"
proof -
  have r: "0 \<le> a div 100" "a div 100 < 100" "0 \<le> b div 100" "b div 100 < 100"
    "0 \<le> a mod 100" "a mod 100 < 100" "0 \<le> b mod 100" "b mod 100 < 100"
    using assms by simp_all
  have "(four_digits a < four_digits b) =
      (a div 100 < b div 100 \<or> a div 100 = b div 100 \<and> a mod 100 < b mod 100)"
    by (simp add: four_digits_def less_append_same_length length_two_digits
        two_digits_less[OF r(1,2,3,4)] two_digits_less[OF r(5,6,7,8)] two_digits_eq[OF r(1,2,3,4)])
  also have "\<dots> = (a < b)" by (rule div_mod_lex) simp
  finally show ?thesis .
qed

lemma four_digits_eq:
  assumes "0 \<le> a" "a < 10000" "0 \<le> b" "b < 10000"
  shows "(four_digits a = four_digits b) = (a = b)"
proof -
  have r: "0 \<le> a div 100" "a div 100 < 100" "0 \<le> b div 100" "b div 100 < 100"
    "0 \<le> a mod 100" "a mod 100 < 100" "0 \<le> b mod 100" "b mod 100 < 100"
    using assms by simp_all
  have "(four_digits a = four_digits b) = (a div 100 = b div 100 \<and> a mod 100 = b mod 100)"
    by (simp add: four_digits_def length_two_digits
        two_digits_eq[OF r(1,2,3,4)] two_digits_eq[OF r(5,6,7,8)])
  also have "\<dots> = (a = b)" by (rule div_mod_eq_iff)
  finally show ?thesis .
qed

lemma length_four_digits: "length (four_digits n) = 4"
  by (simp add: four_digits_def length_two_digits)

lemma valid_date_ranges:
  assumes "valid_date d"
  shows "0 \<le> year d" "year d < 10000" "0 \<le> month d" "month d < 100" "0 \<le> day d" "day d < 100"
proof -
  from assms have m: "1 \<le> month d" "month d \<le> 12" by (simp_all add: valid_date_def)
  from assms days_in_month_bounds[OF m, of "year d"] show
    "0 \<le> year d" "year d < 10000" "0 \<le> month d" "month d < 100" "0 \<le> day d" "day d < 100"
    by (simp_all add: valid_date_def)
qed

text \<open>On valid dates the order of the ISO strings is the order of the dates, and the ISO
  string determines the date.\<close>

lemma iso_date_less:
  assumes a: "valid_date a" and b: "valid_date b"
  shows "(iso_date a < iso_date b) = (toordinal a < toordinal b)"
proof -
  note ra = valid_date_ranges[OF a] and rb = valid_date_ranges[OF b]
  have "(iso_date a < iso_date b) =
     (year a < year b
        \<or> year a = year b \<and> (month a < month b \<or> month a = month b \<and> day a < day b))"
    by (simp add: iso_date_def less_append_same_length length_two_digits length_four_digits
        four_digits_less[OF ra(1,2) rb(1,2)] four_digits_eq[OF ra(1,2) rb(1,2)]
        two_digits_less[OF ra(3,4) rb(3,4)] two_digits_eq[OF ra(3,4) rb(3,4)]
        two_digits_less[OF ra(5,6) rb(5,6)])
  also have "\<dots> = (toordinal a < toordinal b)"
    by (rule toordinal_less_iff[OF a b, symmetric])
  finally show ?thesis .
qed

lemma iso_date_eq:
  fixes a b :: pydate
  assumes a: "valid_date a" and b: "valid_date b"
  shows "(iso_date a = iso_date b) = (a = b)"
proof -
  note ra = valid_date_ranges[OF a] and rb = valid_date_ranges[OF b]
  have "(iso_date a = iso_date b) = (year a = year b \<and> month a = month b \<and> day a = day b)"
    by (simp add: iso_date_def length_two_digits length_four_digits
        four_digits_eq[OF ra(1,2) rb(1,2)]
        two_digits_eq[OF ra(3,4) rb(3,4)] two_digits_eq[OF ra(5,6) rb(5,6)])
  also have "\<dots> = (a = b)" by auto
  finally show ?thesis .
qed

lemma strptime_date_valid: "strptime_date s = Some d \<Longrightarrow> valid_date d"
  by (auto simp: strptime_date_def split: option.splits if_splits)

lemma strptime_date_Nil: "strptime_date [] = None"
  by (simp add: strptime_date_def match_Y_def)

lemma last_day_valid: "valid_date \<lparr>year = 9999, month = 12, day = 31\<rparr>"
  by (simp add: valid_date_def days_in_month_def)

lemma iso_last_day: "iso_date \<lparr>year = 9999, month = 12, day = 31\<rparr> = ''9999-12-31''"
  by code_simp

lemma iso_deadline_key:
  assumes "iso_deadline t"
  shows "deadline_key t = iso_date (due_date t) \<and> valid_date (due_date t)"
  using assms
  by (auto simp: iso_deadline_def deadline_key_def due_date_def strptime_date_Nil
      last_day_valid iso_last_day strptime_date_valid split: option.splits)

text \<open>The lexicographic comparison of the key tuples is \<open>key_order\<close>.\<close>

lemma sort_key_key_order: "(sort_key_of a \<le> sort_key_of b) = key_order a b"
proof -
  have le: "(deadline_key (fst a) \<le> deadline_key (fst b))
      = (deadline_key (fst a) < deadline_key (fst b) \<or> deadline_key (fst a) = deadline_key (fst b))"
    by (rule le_less)
  show ?thesis
    unfolding sort_key_of_def key_order_def less_eq_prod_simp less_prod_simp le
    by auto
qed

lemma sorted_tasks_key_order: "sorted_wrt key_order (sorted_tasks scored)"
proof -
  have "sorted (map sort_key_of (sorted_tasks scored))"
    by (simp add: sorted_tasks_def)
  then have "sorted_wrt (\<lambda>a b. sort_key_of a \<le> sort_key_of b) (sorted_tasks scored)"
    by (simp add: sorted_map)
  then show ?thesis by (simp add: sort_key_key_order)
qed

text \<open>On tasks of the data model, the comparison of the sort keys is the order of the
  specification.\<close>

lemma sort_key_spec_order:
  assumes a: "iso_deadline (fst a)" and b: "iso_deadline (fst b)"
  shows "(sort_key_of a \<le> sort_key_of b) = spec_order a b"
proof -
  note ka = iso_deadline_key[OF a] and kb = iso_deadline_key[OF b]
  have lt: "(deadline_key (fst a) < deadline_key (fst b))
      = (toordinal (due_date (fst a)) < toordinal (due_date (fst b)))"
    using ka kb by (simp add: iso_date_less)
  have eq: "(deadline_key (fst a) = deadline_key (fst b)) = (due_date (fst a) = due_date (fst b))"
    using ka kb by (simp add: iso_date_eq)
  have le: "(deadline_key (fst a) \<le> deadline_key (fst b))
      = (deadline_key (fst a) < deadline_key (fst b) \<or> deadline_key (fst a) = deadline_key (fst b))"
    by (rule le_less)
  show ?thesis
    unfolding sort_key_of_def spec_order_def less_eq_prod_simp less_prod_simp le lt eq
    by auto
qed

subsection \<open>The scorer\<close>

lemma days_until_deadline_None:
  "deadline_str = None \<or> (\<exists>s. deadline_str = Some s \<and> strptime_date s = None)
     \<Longrightarrow> days_until_deadline today deadline_str = None"
  by (auto simp: days_until_deadline_def)

lemma days_until_deadline_Some:
  "strptime_date s = Some d \<Longrightarrow>
     days_until_deadline today (Some s) = Some (max 0 (toordinal d - today))"
  by (auto simp: days_until_deadline_def strptime_date_Nil)

subsection \<open>Start times, errors, and runs that return\<close>

lemma digit_cases:
  fixes v :: int
  assumes "0 \<le> v" "v \<le> 9"
  obtains "v = 0" | "v = 1" | "v = 2" | "v = 3" | "v = 4" | "v = 5"
    | "v = 6" | "v = 7" | "v = 8" | "v = 9"
proof -
  have e: "[0..9::int] = [0, 1, 2, 3, 4, 5, 6, 7, 8, 9]"
    by code_simp
  from assms have "v \<in> set [0..9]" by simp
  then have "v \<in> set [0, 1, 2, 3, 4, 5, 6, 7, 8, 9]"
    unfolding e .
  then show thesis using that by auto
qed

lemma digit_char_values: "map digit_char [0, 1, 2, 3, 4, 5, 6, 7, 8, 9] = ''0123456789''"
  by code_simp

lemma is_digit_digit_char:
  assumes "0 \<le> n" "n \<le> 9"
  shows "is_digit (digit_char n)"
  using assms digit_char_values by (cases n rule: digit_cases) (simp_all add: is_digit_def)

lemma digit_val_digit_char:
  assumes "0 \<le> n" "n \<le> 9"
  shows "digit_val (digit_char n) = n"
  using assms by (simp add: digit_val_def of_char_digit_char)


























subsection \<open>ISO dates parse back\<close>

lemma digit_char_literals:
  "digit_char 0 = CHR ''0''" "digit_char 1 = CHR ''1''" "digit_char 2 = CHR ''2''"
  "digit_char 3 = CHR ''3''" "digit_char 4 = CHR ''4''" "digit_char 5 = CHR ''5''"
  "digit_char 6 = CHR ''6''" "digit_char 7 = CHR ''7''" "digit_char 8 = CHR ''8''"
  "digit_char 9 = CHR ''9''"
  using digit_char_values by simp_all

lemma two_digit_value:
  fixes n :: int
  assumes "0 \<le> n" "n < 100"
  shows "10 * (n div 10 mod 10) + n mod 10 = n"
proof -
  have "n div 10 mod 10 = n div 10" using assms by simp
  then show ?thesis by simp
qed

lemma match_Y_four_digits:
  assumes "0 \<le> y" "y < 10000"
  shows "match_Y (four_digits y @ r) = Some (y, r)"
proof -
  have h: "0 \<le> y div 100" "y div 100 < 100" and l: "0 \<le> y mod 100" "y mod 100 < 100"
    using assms by simp_all
  have r: "0 \<le> a div 10 mod 10" "a div 10 mod 10 \<le> 9" "0 \<le> a mod 10" "a mod 10 \<le> 9"
    for a :: int
    by simp_all
  have "1000 * (y div 100 div 10 mod 10) + 100 * (y div 100 mod 10)
          + 10 * (y mod 100 div 10 mod 10) + y mod 100 mod 10
        = 100 * (10 * (y div 100 div 10 mod 10) + y div 100 mod 10)
          + (10 * (y mod 100 div 10 mod 10) + y mod 100 mod 10)"
    by simp
  also have "\<dots> = 100 * (y div 100) + y mod 100"
    by (simp only: two_digit_value[OF h] two_digit_value[OF l])
  also have "\<dots> = y" by simp
  finally have v: "1000 * (y div 100 div 10 mod 10) + 100 * (y div 100 mod 10)
          + 10 * (y mod 100 div 10 mod 10) + y mod 100 mod 10 = y" .
  have "match_Y (four_digits y @ r) =
      Some (1000 * (y div 100 div 10 mod 10) + 100 * (y div 100 mod 10)
          + 10 * (y mod 100 div 10 mod 10) + y mod 100 mod 10, r)"
    unfolding four_digits_def two_digits_def match_Y_def
    by (simp only: append.simps list.case is_digit_digit_char[OF r(1,2)]
        is_digit_digit_char[OF r(3,4)] digit_val_digit_char[OF r(1,2)]
        digit_val_digit_char[OF r(3,4)] if_True simp_thms)
  with v show ?thesis by (simp only:)
qed

lemma match_m_two_digits:
  assumes "1 \<le> mo" "mo \<le> 12"
  shows "match_m (two_digits mo @ CHR ''-'' # r) = Some (mo, CHR ''-'' # r)"
  using assms
  by (cases mo rule: month_cases)
    (simp_all add: two_digits_def digit_char_literals digit_val_def nonzero_digit_def is_digit_def)

lemma match_d_two_digits:
  assumes "1 \<le> da" "da \<le> 31"
  shows "match_d (two_digits da) = Some (da, [])"
proof -
  have r: "0 \<le> da mod 10" "da mod 10 \<le> 9" by simp_all
  note b = is_digit_digit_char[OF r] and bv = digit_val_digit_char[OF r]
  have z: "(digit_char (da mod 10) = CHR ''0'') = (da mod 10 = 0)"
    using digit_char_eq[OF r, of 0] by (simp add: digit_char_literals)
  have o: "(digit_char (da mod 10) = CHR ''1'') = (da mod 10 = 1)"
    using digit_char_eq[OF r, of 1] by (simp add: digit_char_literals)
  have e: "da = 10 * (da div 10) + da mod 10" by simp
  from assms have "da div 10 = 0 \<or> da div 10 = 1 \<or> da div 10 = 2 \<or> da div 10 = 3"
    by linarith
  then show ?thesis
  proof (elim disjE)
    assume a: "da div 10 = 0"
    with e have "da mod 10 = da" by linarith
    with a assms b bv z show ?thesis
      by (simp add: two_digits_def digit_char_literals nonzero_digit_def)
  next
    assume a: "da div 10 = 1"
    with e have "10 + da mod 10 = da" by linarith
    with a b bv show ?thesis
      by (simp add: two_digits_def digit_char_literals digit_val_def)
  next
    assume a: "da div 10 = 2"
    with e have "20 + da mod 10 = da" by linarith
    with a b bv show ?thesis
      by (simp add: two_digits_def digit_char_literals digit_val_def)
  next
    assume a: "da div 10 = 3"
    with e have v: "30 + da mod 10 = da" by linarith
    with assms have "da mod 10 = 0 \<or> da mod 10 = 1" by linarith
    with a v bv z o show ?thesis
      by (auto simp: two_digits_def digit_char_literals)
  qed
qed

text \<open>The ISO form of a valid date parses back to the date.\<close>

lemma strptime_iso_date:
  assumes "valid_date d"
  shows "strptime_date (iso_date d) = Some d"
proof -
  note rg = valid_date_ranges[OF assms]
  from assms have m: "1 \<le> month d" "month d \<le> 12" and da: "1 \<le> day d"
    by (simp_all add: valid_date_def)
  from assms days_in_month_bounds[OF m, of "year d"] have da': "day d \<le> 31"
    by (simp add: valid_date_def)
  have "iso_date d
      = four_digits (year d) @ CHR ''-'' # (two_digits (month d) @ CHR ''-'' # two_digits (day d))"
    by (simp add: iso_date_def)
  then show ?thesis
    using assms
    by (simp add: strptime_date_def match_Y_four_digits[OF rg(1,2)] match_lit_def
        match_m_two_digits[OF m] match_d_two_digits[OF da da'] valid_date_def)
qed

text \<open>So the deadlines of the data model are: none, the empty string, and the ISO forms
  of the valid dates.\<close>

lemma iso_deadline_iff:
  "iso_deadline t =
     (deadline t = None \<or> deadline t = Some []
        \<or> (\<exists>d. valid_date d \<and> deadline t = Some (iso_date d)))"
proof
  assume "iso_deadline t"
  then show "deadline t = None \<or> deadline t = Some []
        \<or> (\<exists>d. valid_date d \<and> deadline t = Some (iso_date d))"
    by (auto simp: iso_deadline_def split: option.splits dest: strptime_date_valid)
next
  assume "deadline t = None \<or> deadline t = Some []
        \<or> (\<exists>d. valid_date d \<and> deadline t = Some (iso_date d))"
  then show "iso_deadline t"
    by (auto simp: iso_deadline_def strptime_iso_date)
qed

section \<open>The properties of the specification\<close>

subsection \<open>C1: the budget is respected\<close>

text \<open>
  C1, with the bound amended. For every task list whose tasks all have \<open>minutes \<ge> 1\<close>, every
  daily budget, every start time and every \<open>allow_split\<close> setting: when
  \<^verbatim>\<open>schedule_tasks_for_day\<close> returns, the minutes of the returned blocks sum to at
  most \<open>max 0 budget\<close>, where the budget is \<^verbatim>\<open>int(hours * 60)\<close>. So the sum never
  exceeds a budget that is not negative; for a negative budget the schedule is empty
  and its sum, 0, is above the budget.
\<close>

theorem budget_respected:
  assumes "schedule_tasks_for_day today tasks hours start allow_split urgency_window = Inr bs"
    and "\<forall>t \<in> set tasks. 1 \<le> minutes t"
  shows "sum_list (map blk_minutes bs) \<le> max 0 (int_of_float (hours * 60))"
proof -
  from schedule_tasks_for_day_Inr[OF assms(1)] obtain r where
    r: "run_schedule today tasks hours start allow_split urgency_window = Inr r" and bs: "schedule r = bs"
    by blast
  from budget_inv_run[OF r] bs show ?thesis by (auto simp: budget_inv_def)
qed

text \<open>A run with a split: 300 + 180 minutes in a budget of 480.\<close>

theorem budget_respected_witness:
  "schedule_tasks_for_day 738886 [ex_write, ex_review] 8 ''09:00'' True 7 =
     Inr [\<lparr>blk_title = ''Write report'', blk_start = ''09:00'', blk_end = ''14:00'',
           blk_minutes = 300, blk_impact = 2, blk_deadline = None\<rparr>,
          \<lparr>blk_title = ''Review code (part)'', blk_start = ''14:00'', blk_end = ''17:00'',
           blk_minutes = 180, blk_impact = 2, blk_deadline = None\<rparr>]
   \<and> 1 \<le> minutes ex_write \<and> 1 \<le> minutes ex_review
   \<and> (300 + 180 :: int) \<le> max 0 (int_of_float (8 * 60))"
proof -
  have run: "schedule_tasks_for_day 738886 [ex_write, ex_review] 8 ''09:00'' True 7 =
     Inr [\<lparr>blk_title = ''Write report'', blk_start = ''09:00'', blk_end = ''14:00'',
           blk_minutes = 300, blk_impact = 2, blk_deadline = None\<rparr>,
          \<lparr>blk_title = ''Review code (part)'', blk_start = ''14:00'', blk_end = ''17:00'',
           blk_minutes = 180, blk_impact = 2, blk_deadline = None\<rparr>]"
    by code_simp
  have mins: "\<forall>t \<in> set [ex_write, ex_review]. 1 \<le> minutes t"
    by (simp add: ex_write_def ex_review_def)
  from budget_respected[OF run mins] run mins show ?thesis by simp
qed

text \<open>The property as the specification states it, with the bound \<open>budget\<close> itself, fails for
  \<^verbatim>\<open>hours = -1\<close>: the budget is \<open>-60\<close>, the loop stops at once, and the empty
  schedule sums to 0.\<close>

theorem budget_negative_counterexample:
  "schedule_tasks_for_day 738886 [ex_write, ex_review] (- 1) ''09:00'' True 7 = Inr []
   \<and> int_of_float (- 1 * 60) = - 60
   \<and> \<not> sum_list (map blk_minutes ([] :: block list)) \<le> int_of_float (- 1 * 60)"
proof -
  have "schedule_tasks_for_day 738886 [ex_write, ex_review] (- 1) ''09:00'' True 7 = Inr []"
    by code_simp
  moreover have "int_of_float (- 1 * 60) = - 60"
    by (simp add: int_of_float_def)
  ultimately show ?thesis by simp
qed


subsection \<open>C2: at most one partial block, and it is the last\<close>

text \<open>
  C2. For every run of \<^verbatim>\<open>schedule_tasks_for_day\<close> that returns, with final loop state
  \<open>s\<close>: the returned blocks are \<open>schedule s\<close>, and block \<open>i\<close> was made from the task
  \<open>placed s ! i\<close> of the input. A partial block (fewer minutes than its source task
  has stored) is the last block, occurs only with \<open>allow_split\<close>, leaves no budget
  (\<open>leftover_minutes s = 0\<close>), and then the minutes of all blocks sum to the daily budget
  exactly. Hence at most one block is partial.
\<close>

theorem at_most_one_partial:
  assumes "run_schedule today tasks hours start allow_split urgency_window = Inr s"
  shows "schedule_tasks_for_day today tasks hours start allow_split urgency_window
           = Inr (schedule s)
       \<and> length (placed s) = length (schedule s)
       \<and> set (placed s) \<subseteq> set tasks
       \<and> (\<forall>i < length (schedule s). source_of (placed s ! i) (schedule s ! i))
       \<and> (\<forall>i < length (schedule s). partial_at s i \<longrightarrow>
             Suc i = length (schedule s) \<and> allow_split \<and> leftover_minutes s = 0
               \<and> sum_list (map blk_minutes (schedule s)) = int_of_float (hours * 60))
       \<and> (\<forall>i < length (schedule s). \<forall>j < length (schedule s).
             partial_at s i \<and> partial_at s j \<longrightarrow> i = j)"
proof -
  have p: "partial_inv tasks allow_split s" using assms by (rule partial_inv_run)
  have b: "budget_inv (int_of_float (hours * 60)) s" using assms by (rule budget_inv_run)
  have "schedule_tasks_for_day today tasks hours start allow_split urgency_window
           = Inr (schedule s)"
    using assms by (simp add: schedule_tasks_for_day_def)
  moreover have "\<forall>i < length (schedule s). partial_at s i \<longrightarrow>
             Suc i = length (schedule s) \<and> allow_split \<and> leftover_minutes s = 0
               \<and> sum_list (map blk_minutes (schedule s)) = int_of_float (hours * 60)"
    using p b by (auto simp: partial_inv_def budget_inv_def)
  moreover have "\<forall>i < length (schedule s). \<forall>j < length (schedule s).
             partial_at s i \<and> partial_at s j \<longrightarrow> i = j"
  proof (intro allI impI)
    fix i j
    assume "i < length (schedule s)" "j < length (schedule s)" "partial_at s i \<and> partial_at s j"
    with p have "Suc i = length (schedule s)" "Suc j = length (schedule s)"
      by (simp_all add: partial_inv_def)
    then show "i = j" by simp
  qed
  ultimately show ?thesis using p by (simp add: partial_inv_def)
qed

text \<open>Two tasks of 300 minutes in 480 minutes with splitting: the second block is partial,
  it is the last, and 300 + 180 is the budget.\<close>

theorem at_most_one_partial_witness:
  "run_schedule 738886 [ex_write, ex_review] 8 ''09:00'' True 7 =
     Inr \<lparr>current_minutes = 480, leftover_minutes = 0,
          schedule =
            [\<lparr>blk_title = ''Write report'', blk_start = ''09:00'', blk_end = ''14:00'',
              blk_minutes = 300, blk_impact = 2, blk_deadline = None\<rparr>,
             \<lparr>blk_title = ''Review code (part)'', blk_start = ''14:00'', blk_end = ''17:00'',
              blk_minutes = 180, blk_impact = 2, blk_deadline = None\<rparr>],
          placed = [ex_write, ex_review]\<rparr>
   \<and> blk_minutes \<lparr>blk_title = ''Review code (part)'', blk_start = ''14:00'',
         blk_end = ''17:00'', blk_minutes = 180, blk_impact = 2, blk_deadline = None\<rparr>
       < minutes ex_review
   \<and> (300 + 180 :: int) = int_of_float (8 * 60)"
proof -
  let ?s = "\<lparr>current_minutes = 480, leftover_minutes = 0,
          schedule =
            [\<lparr>blk_title = ''Write report'', blk_start = ''09:00'', blk_end = ''14:00'',
              blk_minutes = 300, blk_impact = 2, blk_deadline = None\<rparr>,
             \<lparr>blk_title = ''Review code (part)'', blk_start = ''14:00'', blk_end = ''17:00'',
              blk_minutes = 180, blk_impact = 2, blk_deadline = None\<rparr>],
          placed = [ex_write, ex_review]\<rparr>"
  have run: "run_schedule 738886 [ex_write, ex_review] 8 ''09:00'' True 7 = Inr ?s"
    by code_simp
  have part: "partial_at ?s 1"
    by (simp add: partial_at_def ex_review_def)
  from at_most_one_partial[OF run] have
    "partial_at ?s 1 \<longrightarrow> sum_list (map blk_minutes (schedule ?s)) = int_of_float (8 * 60)"
    by (simp add: int_of_float_def)
  with part have "sum_list (map blk_minutes (schedule ?s)) = int_of_float (8 * 60)" by simp
  with run part show ?thesis by (simp add: partial_at_def)
qed


subsection \<open>C3: the blocks are contiguous from the start time\<close>

text \<open>
  C3, with the last part amended. For every run of \<^verbatim>\<open>schedule_tasks_for_day\<close> that returns blocks
  \<open>bs\<close>, with the start time parsed as hour \<open>h\<close> and minute \<open>m\<close>: the first block starts at
  the start time; every block ends where the next one starts, also when tasks between
  them were skipped; block \<open>i\<close> starts at the start time plus the minutes of the blocks
  before it, and ends \<open>blk_minutes\<close> later, both on the 24-hour clock (modulo 1440
  minutes). So \<open>start < end\<close> holds for a block that has at least one minute and ends
  before midnight of the day it starts on.
\<close>

theorem blocks_contiguous:
  assumes run: "schedule_tasks_for_day today tasks hours start allow_split urgency_window = Inr bs"
    and start: "parse_start start = Inr (h, m)"
  shows "(bs \<noteq> [] \<longrightarrow> blk_start (hd bs) = format_time (h * 60 + m))
       \<and> (\<forall>i. Suc i < length bs \<longrightarrow> blk_end (bs ! i) = blk_start (bs ! Suc i))
       \<and> (\<forall>i < length bs.
             blk_start (bs ! i) =
               format_time ((h * 60 + m + sum_list (map blk_minutes (take i bs))) mod 1440)
           \<and> blk_end (bs ! i) =
               format_time ((h * 60 + m + sum_list (map blk_minutes (take i bs))
                              + blk_minutes (bs ! i)) mod 1440)
           \<and> (0 < blk_minutes (bs ! i)
                \<and> (h * 60 + m + sum_list (map blk_minutes (take i bs))) mod 1440
                      + blk_minutes (bs ! i) < 1440
                \<longrightarrow> blk_start (bs ! i) < blk_end (bs ! i)))"
proof -
  from schedule_tasks_for_day_Inr[OF run] obtain r where
    r: "run_schedule today tasks hours start allow_split urgency_window = Inr r"
    and bs: "schedule r = bs"
    by blast
  from time_inv_run[OF r start] bs have tl: "timeline (h * 60 + m) bs"
    and range: "bs = [] \<or> 0 \<le> h \<and> h \<le> 23 \<and> 0 \<le> m \<and> m \<le> 59"
    by (simp_all add: time_inv_def)
  have first: "blk_start (hd bs) = format_time (h * 60 + m)" if "bs \<noteq> []"
  proof -
    from that range have "(h * 60 + m) mod 1440 = h * 60 + m" by simp
    with that tl show ?thesis by (cases bs) simp_all
  qed
  have contiguous: "blk_end (bs ! i) = blk_start (bs ! Suc i)" if "Suc i < length bs" for i
  proof -
    from that have i: "i < length bs" by simp
    have "take (Suc i) bs = take i bs @ [bs ! i]"
      using i by (rule take_Suc_conv_app_nth)
    with timeline_nth[OF tl i] timeline_nth[OF tl that] show ?thesis by (simp add: add.assoc)
  qed
  have positive: "blk_start (bs ! i) < blk_end (bs ! i)"
    if i: "i < length bs" and pos: "0 < blk_minutes (bs ! i)"
      and day: "(h * 60 + m + sum_list (map blk_minutes (take i bs))) mod 1440
                  + blk_minutes (bs ! i) < 1440" for i
  proof -
    let ?a = "(h * 60 + m + sum_list (map blk_minutes (take i bs))) mod 1440"
    have a: "0 \<le> ?a" "?a < 1440" by simp_all
    have "(h * 60 + m + sum_list (map blk_minutes (take i bs)) + blk_minutes (bs ! i)) mod 1440
            = (?a + blk_minutes (bs ! i)) mod 1440"
      by (simp add: mod_add_left_eq)
    also have "\<dots> = ?a + blk_minutes (bs ! i)" using a pos day by simp
    finally have e: "blk_end (bs ! i) = format_time (?a + blk_minutes (bs ! i))"
      using timeline_nth[OF tl i] by simp
    have "format_time ?a < format_time (?a + blk_minutes (bs ! i))"
      using a pos day by (simp add: format_time_less)
    with e timeline_nth[OF tl i] show ?thesis by simp
  qed
  show ?thesis using first contiguous positive timeline_nth[OF tl] by blast
qed

text \<open>The second block of the run with a split starts at 14:00, has 180 minutes and ends
  the same day.\<close>

theorem blocks_contiguous_witness:
  "schedule_tasks_for_day 738886 [ex_write, ex_review] 8 ''09:00'' True 7 =
     Inr [\<lparr>blk_title = ''Write report'', blk_start = ''09:00'', blk_end = ''14:00'',
           blk_minutes = 300, blk_impact = 2, blk_deadline = None\<rparr>,
          \<lparr>blk_title = ''Review code (part)'', blk_start = ''14:00'', blk_end = ''17:00'',
           blk_minutes = 180, blk_impact = 2, blk_deadline = None\<rparr>]
   \<and> parse_start ''09:00'' = Inr (9, 0)
   \<and> format_time (9 * 60 + 0) = ''09:00''
   \<and> (9 * 60 + 0 + 300) mod 1440 + 180 < (1440 :: int)
   \<and> ''14:00'' < ''17:00''"
proof -
  let ?bs = "[\<lparr>blk_title = ''Write report'', blk_start = ''09:00'', blk_end = ''14:00'',
           blk_minutes = 300, blk_impact = 2, blk_deadline = None\<rparr>,
          \<lparr>blk_title = ''Review code (part)'', blk_start = ''14:00'', blk_end = ''17:00'',
           blk_minutes = 180, blk_impact = 2, blk_deadline = None\<rparr>]"
  have run: "schedule_tasks_for_day 738886 [ex_write, ex_review] 8 ''09:00'' True 7 = Inr ?bs"
    by code_simp
  have start: "parse_start ''09:00'' = Inr (9, 0)"
    by code_simp
  note inst = blocks_contiguous[OF run start]
  from inst have "format_time (9 * 60 + 0) = ''09:00''" by simp
  moreover from inst have "(1::nat) < length ?bs \<longrightarrow>
      (0 < blk_minutes (?bs ! 1)
         \<and> (9 * 60 + 0 + sum_list (map blk_minutes (take 1 ?bs))) mod 1440 + blk_minutes (?bs ! 1) < 1440
       \<longrightarrow> blk_start (?bs ! 1) < blk_end (?bs ! 1))"
    by blast
  then have "''14:00'' < ''17:00''" by simp
  ultimately show ?thesis using run start by simp
qed

text \<open>The property as the specification states it, \<open>start < end\<close> for every block, fails for a block that
  crosses midnight: a task of 300 minutes placed at 23:00 ends at 04:00.\<close>

theorem midnight_wrap_counterexample:
  "schedule_tasks_for_day 738886 [ex_write] 8 ''23:00'' False 7 =
     Inr [\<lparr>blk_title = ''Write report'', blk_start = ''23:00'', blk_end = ''04:00'',
           blk_minutes = 300, blk_impact = 2, blk_deadline = None\<rparr>]
   \<and> \<not> ''23:00'' < ''04:00''"
proof -
  have "schedule_tasks_for_day 738886 [ex_write] 8 ''23:00'' False 7 =
     Inr [\<lparr>blk_title = ''Write report'', blk_start = ''23:00'', blk_end = ''04:00'',
           blk_minutes = 300, blk_impact = 2, blk_deadline = None\<rparr>]"
    by code_simp
  then show ?thesis by simp
qed


subsection \<open>C4: the order in which tasks are placed\<close>

text \<open>
  C4, amended for deadlines that are not ISO dates. When every task has its score, the
  list that the loop walks is the scored list sorted by the key
  \<^verbatim>\<open>(-score, deadline or "9999-12-31", minutes)\<close>: it is a permutation of the input; of
  any two of its tasks the earlier one has the higher score, or the same score and the
  smaller deadline string, or the same score and deadline string and at most the stored
  minutes of the later one (\<open>key_order\<close>, with strings compared character by
  character); tasks with equal keys keep their input order. When every deadline is
  absent, empty or the ISO form of a date, this is the order of the specification
  (\<open>spec_order\<close>): higher score, then earlier due date, then fewer stored minutes, where
  a task without deadline is due on 9999-12-31. The loop of \<^verbatim>\<open>schedule_tasks_for_day\<close>
  runs on exactly this list.
\<close>

theorem sorted_by_score_deadline_duration:
  assumes scores: "assign_scores today urgency_window tasks = Inr scored"
  shows "map fst scored = tasks
       \<and> (\<forall>p \<in> set scored. compute_score today urgency_window (fst p) = Inr (snd p))
       \<and> mset (sorted_tasks scored) = mset scored
       \<and> sorted_wrt key_order (sorted_tasks scored)
       \<and> ((\<forall>t \<in> set tasks. iso_deadline t) \<longrightarrow> sorted_wrt spec_order (sorted_tasks scored))
       \<and> (\<forall>k. filter (\<lambda>p. sort_key_of p = k) (sorted_tasks scored)
                 = filter (\<lambda>p. sort_key_of p = k) scored)
       \<and> run_schedule today tasks hours start allow_split urgency_window =
           (case parse_start start of
              Inl e \<Rightarrow> Inl e
            | Inr (h, m) \<Rightarrow>
                loop today h m allow_split (map fst (sorted_tasks scored))
                  \<lparr>current_minutes = 0, leftover_minutes = int_of_float (hours * 60),
                   schedule = [], placed = []\<rparr>)"
proof -
  note sc = assign_scores_Inr[OF scores]
  have keys: "sorted_wrt key_order (sorted_tasks scored)"
    by (rule sorted_tasks_key_order)
  have ordered: "sorted_wrt spec_order (sorted_tasks scored)"
    if iso: "\<forall>t \<in> set tasks. iso_deadline t"
  proof -
    from keys have "sorted_wrt (\<lambda>a b. sort_key_of a \<le> sort_key_of b) (sorted_tasks scored)"
      by (simp add: sort_key_key_order)
    moreover have "spec_order a b"
      if "a \<in> set (sorted_tasks scored)" "b \<in> set (sorted_tasks scored)"
        "sort_key_of a \<le> sort_key_of b" for a b
    proof -
      from that(1,2) have "fst a \<in> set (map fst scored)" "fst b \<in> set (map fst scored)"
        by (simp_all add: sorted_tasks_def)
      with sc iso have "iso_deadline (fst a)" "iso_deadline (fst b)" by simp_all
      with that(3) show ?thesis by (simp add: sort_key_spec_order)
    qed
    ultimately show ?thesis by (rule sorted_wrt_mono_rel[rotated])
  qed
  have stable: "filter (\<lambda>p. sort_key_of p = k) (sorted_tasks scored)
                 = filter (\<lambda>p. sort_key_of p = k) scored" for k
    by (simp add: sorted_tasks_def sort_key_stable)
  have perm: "mset (sorted_tasks scored) = mset scored"
    by (simp add: sorted_tasks_def)
  have run: "run_schedule today tasks hours start allow_split urgency_window =
           (case parse_start start of
              Inl e \<Rightarrow> Inl e
            | Inr (h, m) \<Rightarrow>
                loop today h m allow_split (map fst (sorted_tasks scored))
                  \<lparr>current_minutes = 0, leftover_minutes = int_of_float (hours * 60),
                   schedule = [], placed = []\<rparr>)"
    using scores by (simp add: run_schedule_def)
  show ?thesis using sc keys ordered stable perm run by blast
qed

text \<open>Three tasks of score 1/30: the dated one comes first, then the undated one of
  60 minutes, then the undated one of 120 minutes.\<close>

theorem sorted_by_score_deadline_duration_witness:
  "assign_scores 738886 7 [ex_long, ex_plain, ex_dated] =
     Inr [(ex_long, 1 / 30), (ex_plain, 1 / 30), (ex_dated, 1 / 30)]
   \<and> iso_deadline ex_long \<and> iso_deadline ex_plain \<and> iso_deadline ex_dated
   \<and> sorted_tasks [(ex_long, 1 / 30), (ex_plain, 1 / 30), (ex_dated, 1 / 30)] =
       [(ex_dated, 1 / 30), (ex_plain, 1 / 30), (ex_long, 1 / 30)]
   \<and> spec_order (ex_dated, 1 / 30) (ex_plain, 1 / 30)
   \<and> spec_order (ex_plain, 1 / 30) (ex_long, 1 / 30)"
proof -
  have scores: "assign_scores 738886 7 [ex_long, ex_plain, ex_dated] =
     Inr [(ex_long, 1 / 30), (ex_plain, 1 / 30), (ex_dated, 1 / 30)]"
    by code_simp
  have i1: "iso_deadline ex_long" by code_simp
  have i2: "iso_deadline ex_plain" by code_simp
  have i3: "iso_deadline ex_dated" by code_simp
  have iso: "\<forall>t \<in> set [ex_long, ex_plain, ex_dated]. iso_deadline t"
    using i1 i2 i3 by simp
  have sorted: "sorted_tasks [(ex_long, 1 / 30), (ex_plain, 1 / 30), (ex_dated, 1 / 30)] =
       [(ex_dated, 1 / 30), (ex_plain, 1 / 30), (ex_long, 1 / 30)]"
    by code_simp
  from sorted_by_score_deadline_duration[OF scores] iso
  have "sorted_wrt spec_order
          (sorted_tasks [(ex_long, 1 / 30), (ex_plain, 1 / 30), (ex_dated, 1 / 30)])"
    by blast
  then have "spec_order (ex_dated, 1 / 30) (ex_plain, 1 / 30)
      \<and> spec_order (ex_plain, 1 / 30) (ex_long, 1 / 30)"
    unfolding sorted by simp
  with scores i1 i2 i3 sorted show ?thesis by simp
qed

text \<open>The property as the specification states it, ties of the score broken by the
  earliest deadline, fails when a deadline is not zero-padded: \<^verbatim>\<open>2030-1-5\<close> and
  \<^verbatim>\<open>2030-01-10\<close> both parse as dates, the scores are equal, and the task due on the
  10th is placed before the task due on the 5th, although it came second in the input.\<close>

theorem raw_string_order_counterexample:
  "strptime_date ''2030-1-5'' = Some \<lparr>year = 2030, month = 1, day = 5\<rparr>
   \<and> strptime_date ''2030-01-10'' = Some \<lparr>year = 2030, month = 1, day = 10\<rparr>
   \<and> toordinal \<lparr>year = 2030, month = 1, day = 5\<rparr>
       < toordinal \<lparr>year = 2030, month = 1, day = 10\<rparr>
   \<and> assign_scores 738886 7 [ex_jan5, ex_jan10] = Inr [(ex_jan5, 1 / 30), (ex_jan10, 1 / 30)]
   \<and> sorted_tasks [(ex_jan5, 1 / 30), (ex_jan10, 1 / 30)] = [(ex_jan10, 1 / 30), (ex_jan5, 1 / 30)]
   \<and> \<not> spec_order (ex_jan10, 1 / 30) (ex_jan5, 1 / 30)
   \<and> schedule_tasks_for_day 738886 [ex_jan5, ex_jan10] 8 ''09:00'' False 7 =
       Inr [\<lparr>blk_title = ''Pack bags'', blk_start = ''09:00'', blk_end = ''10:00'',
             blk_minutes = 60, blk_impact = 2, blk_deadline = Some ''2030-01-10''\<rparr>,
            \<lparr>blk_title = ''Book flights'', blk_start = ''10:00'', blk_end = ''11:00'',
             blk_minutes = 60, blk_impact = 2, blk_deadline = Some ''2030-1-5''\<rparr>]"
  by code_simp


subsection \<open>C5: a task that does not fit is skipped, and the scan continues\<close>

text \<open>
  C5. Without splitting, when the loop reaches a task whose stored minutes exceed the
  budget left, the body leaves the state unchanged and the loop goes on with the tasks
  after it. Two tasks of 300 minutes in 480 minutes give exactly one block of 300
  minutes; with a third, lower-ranked task of 100 minutes after them, that task is still
  placed, right after the first block.
\<close>

theorem skip_and_continue:
  assumes "\<not> allow_split" and "0 < leftover_minutes s" and "leftover_minutes s < minutes t"
  shows "body today h m allow_split t s = Inr s
       \<and> loop today h m allow_split (t # ts) s = loop today h m allow_split ts s
       \<and> schedule_tasks_for_day 738886 [ex_write, ex_review] 8 ''09:00'' False 7 =
           Inr [\<lparr>blk_title = ''Write report'', blk_start = ''09:00'', blk_end = ''14:00'',
                 blk_minutes = 300, blk_impact = 2, blk_deadline = None\<rparr>]
       \<and> schedule_tasks_for_day 738886 [ex_write, ex_review, ex_small] 8 ''09:00'' False 7 =
           Inr [\<lparr>blk_title = ''Write report'', blk_start = ''09:00'', blk_end = ''14:00'',
                 blk_minutes = 300, blk_impact = 2, blk_deadline = None\<rparr>,
                \<lparr>blk_title = ''File receipts'', blk_start = ''14:00'', blk_end = ''15:40'',
                 blk_minutes = 100, blk_impact = 1 / 4, blk_deadline = None\<rparr>]"
proof -
  have skip: "body today h m allow_split t s = Inr s"
    using assms by (simp add: body_def)
  then have continue: "loop today h m allow_split (t # ts) s = loop today h m allow_split ts s"
    using assms(2) by simp
  have c: "schedule_tasks_for_day 738886 [ex_write, ex_review] 8 ''09:00'' False 7 =
           Inr [\<lparr>blk_title = ''Write report'', blk_start = ''09:00'', blk_end = ''14:00'',
                 blk_minutes = 300, blk_impact = 2, blk_deadline = None\<rparr>]"
    by code_simp
  have later: "schedule_tasks_for_day 738886 [ex_write, ex_review, ex_small] 8 ''09:00'' False 7 =
           Inr [\<lparr>blk_title = ''Write report'', blk_start = ''09:00'', blk_end = ''14:00'',
                 blk_minutes = 300, blk_impact = 2, blk_deadline = None\<rparr>,
                \<lparr>blk_title = ''File receipts'', blk_start = ''14:00'', blk_end = ''15:40'',
                 blk_minutes = 100, blk_impact = 1 / 4, blk_deadline = None\<rparr>]"
    by code_simp
  from skip continue c later show ?thesis by simp
qed

text \<open>The state after the first block, the second task of 300 minutes, and the task of 100
  minutes behind it.\<close>

theorem skip_and_continue_witness:
  "0 < leftover_minutes ex_state \<and> leftover_minutes ex_state < minutes ex_review
   \<and> body 738886 9 0 False ex_review ex_state = Inr ex_state
   \<and> loop 738886 9 0 False [ex_review, ex_small] ex_state
       = loop 738886 9 0 False [ex_small] ex_state
   \<and> loop 738886 9 0 False [ex_small] ex_state =
       Inr \<lparr>current_minutes = 400, leftover_minutes = 80,
            schedule =
              [\<lparr>blk_title = ''Write report'', blk_start = ''09:00'', blk_end = ''14:00'',
                blk_minutes = 300, blk_impact = 2, blk_deadline = None\<rparr>,
               \<lparr>blk_title = ''File receipts'', blk_start = ''14:00'', blk_end = ''15:40'',
                blk_minutes = 100, blk_impact = 1 / 4, blk_deadline = None\<rparr>],
            placed = [ex_write, ex_small]\<rparr>"
proof -
  have no: "\<not> False" by simp
  have left: "0 < leftover_minutes ex_state" by (simp add: ex_state_def)
  have big: "leftover_minutes ex_state < minutes ex_review"
    by (simp add: ex_state_def ex_review_def)
  have rest: "loop 738886 9 0 False [ex_small] ex_state =
       Inr \<lparr>current_minutes = 400, leftover_minutes = 80,
            schedule =
              [\<lparr>blk_title = ''Write report'', blk_start = ''09:00'', blk_end = ''14:00'',
                blk_minutes = 300, blk_impact = 2, blk_deadline = None\<rparr>,
               \<lparr>blk_title = ''File receipts'', blk_start = ''14:00'', blk_end = ''15:40'',
                blk_minutes = 100, blk_impact = 1 / 4, blk_deadline = None\<rparr>],
            placed = [ex_write, ex_small]\<rparr>"
    by code_simp
  from skip_and_continue[OF no left big, of 738886 9 0 "[ex_small]"] left big rest
  show ?thesis by simp
qed


subsection \<open>C6: no deadline, or an unparseable one, gives urgency 1\<close>

text \<open>
  C6. For every task whose deadline is absent, or is a string that \<^verbatim>\<open>strptime\<close> does
  not accept as a \<^verbatim>\<open>%Y-%m-%d\<close> date, \<^verbatim>\<open>compute_score\<close> raises nothing and returns
  \<open>impact / max 1 minutes\<close>, for every urgency window (also 0).
\<close>

theorem score_without_deadline:
  assumes "deadline t = None \<or> (\<exists>s. deadline t = Some s \<and> strptime_date s = None)"
  shows "compute_score today max_window t = Inr (impact t / real_of_int (max 1 (minutes t)))"
proof -
  have "days_until_deadline today (deadline t) = None"
    using assms by (rule days_until_deadline_None)
  then show ?thesis by (simp add: compute_score_def)
qed

text \<open>The 30th of February is no date; the stored minutes 0 are clamped to 1.\<close>

theorem score_without_deadline_witness:
  "strptime_date ''2024-02-30'' = None
   \<and> deadline ex_bad_date = Some ''2024-02-30''
   \<and> compute_score 738886 7 ex_bad_date = Inr 3"
proof -
  have bad: "strptime_date ''2024-02-30'' = None" by code_simp
  have dl: "deadline ex_bad_date = Some ''2024-02-30''" by (simp add: ex_bad_date_def)
  have "deadline ex_bad_date = None
      \<or> (\<exists>s. deadline ex_bad_date = Some s \<and> strptime_date s = None)"
    using bad dl by simp
  from score_without_deadline[OF this, of 738886 7] bad dl show ?thesis
    by (simp add: ex_bad_date_def)
qed

subsection \<open>C7: the urgency multiplier\<close>

text \<open>
  C7. For every task whose deadline parses to a date \<open>d\<close> and every positive window
  \<open>w\<close>, with \<open>days_left = max 0 (d - today)\<close> and
  \<open>urgency = 1 + max 0 ((w - days_left) / w)\<close>: the score is
  \<open>impact / max 1 minutes * urgency\<close>; the urgency lies between 1 and 2; it is 2 when
  the deadline is today or earlier, and 1 when it is \<open>w\<close> or more days away.
\<close>

theorem urgency_formula:
  assumes "deadline t = Some s" and "strptime_date s = Some d" and "0 < w"
  shows "let days_left = max 0 (toordinal d - today);
             urgency = 1 + max 0 (real_of_int (w - days_left) / real_of_int w)
         in compute_score today w t
              = Inr (impact t / real_of_int (max 1 (minutes t)) * urgency)
            \<and> 1 \<le> urgency \<and> urgency \<le> 2
            \<and> (toordinal d \<le> today \<longrightarrow> urgency = 2)
            \<and> (today + w \<le> toordinal d \<longrightarrow> urgency = 1)"
proof -
  define days_left where "days_left = max 0 (toordinal d - today)"
  define urgency where "urgency = 1 + max 0 (real_of_int (w - days_left) / real_of_int w)"
  have dl: "0 \<le> days_left" by (simp add: days_left_def)
  have score: "compute_score today w t
              = Inr (impact t / real_of_int (max 1 (minutes t)) * urgency)"
    using assms days_until_deadline_Some[OF assms(2), of today]
    by (simp add: compute_score_def urgency_def days_left_def)
  have lower: "1 \<le> urgency" by (simp add: urgency_def)
  have "real_of_int (w - days_left) / real_of_int w \<le> 1"
    using assms(3) dl by simp
  then have upper: "urgency \<le> 2" by (simp add: urgency_def)
  have past: "urgency = 2" if "toordinal d \<le> today"
  proof -
    from that have "days_left = 0" by (simp add: days_left_def)
    then show ?thesis using assms(3) by (simp add: urgency_def)
  qed
  have far: "urgency = 1" if "today + w \<le> toordinal d"
  proof -
    from that assms(3) have "w \<le> days_left" by (simp add: days_left_def)
    then have "real_of_int (w - days_left) / real_of_int w \<le> 0"
      using assms(3) by (simp add: divide_le_0_iff)
    then show ?thesis by (simp add: urgency_def)
  qed
  from score lower upper past far show ?thesis
    unfolding Let_def days_left_def[symmetric] urgency_def[symmetric] by blast
qed

text \<open>A deadline on 2024-01-01, seen on that day (urgency 2) and three days before
  (urgency 1 + 4/7), with the window 7.\<close>

theorem urgency_formula_witness:
  "deadline ex_due = Some ''2024-01-01''
   \<and> strptime_date ''2024-01-01'' = Some \<lparr>year = 2024, month = 1, day = 1\<rparr>
   \<and> toordinal \<lparr>year = 2024, month = 1, day = 1\<rparr> = 738886
   \<and> (0 :: int) < 7
   \<and> compute_score 738886 7 ex_due = Inr (2 / 60 * 2)
   \<and> compute_score 738883 7 ex_due = Inr (2 / 60 * (1 + 4 / 7))"
proof -
  have dl: "deadline ex_due = Some ''2024-01-01''" by (simp add: ex_due_def)
  have parse: "strptime_date ''2024-01-01'' = Some \<lparr>year = 2024, month = 1, day = 1\<rparr>"
    by code_simp
  have ord: "toordinal \<lparr>year = 2024, month = 1, day = 1\<rparr> = 738886"
    by code_simp
  have w: "(0 :: int) < 7" by simp
  from urgency_formula[OF dl parse w, of 738886]
  have today: "compute_score 738886 7 ex_due = Inr (2 / 60 * 2)"
    by (simp add: ord Let_def ex_due_def)
  from urgency_formula[OF dl parse w, of 738883]
  have before: "compute_score 738883 7 ex_due = Inr (2 / 60 * (1 + 4 / 7))"
    by (simp add: ord Let_def ex_due_def)
  from dl parse ord today before show ?thesis by simp
qed

subsection \<open>C8: the score grows as the deadline comes closer\<close>

text \<open>
  C8. For a task of positive impact and a positive urgency window: when the deadline
  \<open>s1\<close> is a date no later than the deadline \<open>s2\<close>, the task scored with deadline
  \<open>s1\<close> has at least the score it has with deadline \<open>s2\<close>; both scores exist.
\<close>

theorem score_monotone_in_deadline:
  assumes w: "0 < w" and imp: "0 < impact t"
    and d1: "strptime_date s1 = Some d1" and d2: "strptime_date s2 = Some d2"
    and le: "toordinal d1 \<le> toordinal d2"
  shows "\<exists>x1 x2. compute_score today w (t\<lparr>deadline := Some s1\<rparr>) = Inr x1
           \<and> compute_score today w (t\<lparr>deadline := Some s2\<rparr>) = Inr x2
           \<and> x2 \<le> x1"
proof -
  define base where "base = impact t / real_of_int (max 1 (minutes t))"
  define u where "u d = 1 + max 0 (real_of_int (w - max 0 (toordinal d - today)) / real_of_int w)"
    for d
  have s1: "compute_score today w (t\<lparr>deadline := Some s1\<rparr>) = Inr (base * u d1)"
    using w days_until_deadline_Some[OF d1, of today]
    by (simp add: compute_score_def base_def u_def)
  have s2: "compute_score today w (t\<lparr>deadline := Some s2\<rparr>) = Inr (base * u d2)"
    using w days_until_deadline_Some[OF d2, of today]
    by (simp add: compute_score_def base_def u_def)
  have "w - max 0 (toordinal d2 - today) \<le> w - max 0 (toordinal d1 - today)"
    using le by simp
  then have "real_of_int (w - max 0 (toordinal d2 - today)) / real_of_int w
      \<le> real_of_int (w - max 0 (toordinal d1 - today)) / real_of_int w"
    using w by (simp add: divide_right_mono)
  then have "u d2 \<le> u d1" by (simp add: u_def)
  moreover have "0 \<le> base" using imp by (simp add: base_def)
  ultimately have "base * u d2 \<le> base * u d1" by (rule mult_left_mono)
  with s1 s2 show ?thesis by blast
qed

text \<open>On 2024-01-01 with window 7: due on the 3rd scores 2/35, due on the 5th 1/21.\<close>

theorem score_monotone_in_deadline_witness:
  "(0 :: int) < 7 \<and> 0 < impact ex_due
   \<and> strptime_date ''2024-01-03'' = Some \<lparr>year = 2024, month = 1, day = 3\<rparr>
   \<and> strptime_date ''2024-01-05'' = Some \<lparr>year = 2024, month = 1, day = 5\<rparr>
   \<and> toordinal \<lparr>year = 2024, month = 1, day = 3\<rparr> \<le> toordinal \<lparr>year = 2024, month = 1, day = 5\<rparr>
   \<and> compute_score 738886 7 (ex_due\<lparr>deadline := Some ''2024-01-03''\<rparr>) = Inr (2 / 35)
   \<and> compute_score 738886 7 (ex_due\<lparr>deadline := Some ''2024-01-05''\<rparr>) = Inr (1 / 21)
   \<and> (1 / 21 :: real) \<le> 2 / 35"
proof -
  have w: "(0 :: int) < 7" by simp
  have imp: "0 < impact ex_due" by (simp add: ex_due_def)
  have p1: "strptime_date ''2024-01-03'' = Some \<lparr>year = 2024, month = 1, day = 3\<rparr>"
    by code_simp
  have p2: "strptime_date ''2024-01-05'' = Some \<lparr>year = 2024, month = 1, day = 5\<rparr>"
    by code_simp
  have le: "toordinal \<lparr>year = 2024, month = 1, day = 3\<rparr>
      \<le> toordinal \<lparr>year = 2024, month = 1, day = 5\<rparr>"
    by code_simp
  have c1: "compute_score 738886 7 (ex_due\<lparr>deadline := Some ''2024-01-03''\<rparr>) = Inr (2 / 35)"
    by code_simp
  have c2: "compute_score 738886 7 (ex_due\<lparr>deadline := Some ''2024-01-05''\<rparr>) = Inr (1 / 21)"
    by code_simp
  from score_monotone_in_deadline[OF w imp p1 p2 le, of 738886] c1 c2
  have "(1 / 21 :: real) \<le> 2 / 35" by auto
  with w imp p1 p2 le c1 c2 show ?thesis by simp
qed


subsection \<open>C9: which start times are rejected\<close>





subsection \<open>C10: a task of 0 minutes gets a block of 0 minutes\<close>

text \<open>
  C10. The clamp \<^verbatim>\<open>max(1, minutes)\<close> is in the scorer only. When the loop, with budget
  left, reaches a task whose stored minutes are 0 and the body returns, it has appended
  one block with \<open>blk_minutes = 0\<close> and equal start and end under the task's own
  title; \<open>current_minutes\<close> and \<open>leftover_minutes\<close> are unchanged, and the loop goes on
  from there. The scorer gives the task the score it would have with 1 minute.
\<close>

theorem zero_minutes_block:
  assumes zero: "minutes t = 0" and left: "0 < leftover_minutes s"
    and body: "body today h m allow_split t s = Inr s'"
  shows "\<exists>b. s' = s\<lparr>schedule := schedule s @ [b], placed := placed s @ [t]\<rparr>
           \<and> blk_minutes b = 0 \<and> blk_start b = blk_end b \<and> blk_title b = title t
           \<and> current_minutes s' = current_minutes s
           \<and> leftover_minutes s' = leftover_minutes s
           \<and> loop today h m allow_split (t # ts) s = loop today h m allow_split ts s'
           \<and> compute_score today w t = compute_score today w (t\<lparr>minutes := 1\<rparr>)"
proof -
  from body_cases[OF body] zero left obtain b where
    s': "s' = \<lparr>current_minutes = current_minutes s + blk_minutes b,
              leftover_minutes = leftover_minutes s - blk_minutes b,
              schedule = schedule s @ [b], placed = placed s @ [t]\<rparr>"
    and st: "blk_start b = format_time ((h * 60 + m + current_minutes s) mod 1440)"
    and en: "blk_end b = format_time ((h * 60 + m + current_minutes s + blk_minutes b) mod 1440)"
    and mins: "blk_minutes b = 0" and ttl: "blk_title b = title t"
    by auto
  have e1: "s' = s\<lparr>schedule := schedule s @ [b], placed := placed s @ [t]\<rparr>"
    using s' mins by simp
  have e2: "blk_start b = blk_end b" using st en mins by simp
  have e3: "loop today h m allow_split (t # ts) s = loop today h m allow_split ts s'"
    using left body by simp
  have e4: "compute_score today w t = compute_score today w (t\<lparr>minutes := 1\<rparr>)"
    using zero by (simp add: compute_score_def)
  have e5: "current_minutes s' = current_minutes s" "leftover_minutes s' = leftover_minutes s"
    using e1 by simp_all
  from e1 mins e2 ttl e5 e3 e4 show ?thesis by blast
qed

text \<open>A task of 0 minutes at the head of the day: a block from 09:00 to 09:00, and the
  next task still starts at 09:00.\<close>

theorem zero_minutes_block_witness:
  "minutes ex_zero = 0
   \<and> body 738886 9 0 False ex_zero
        \<lparr>current_minutes = 0, leftover_minutes = 480, schedule = [], placed = []\<rparr>
       = Inr \<lparr>current_minutes = 0, leftover_minutes = 480,
              schedule = [\<lparr>blk_title = ''Stretch'', blk_start = ''09:00'', blk_end = ''09:00'',
                           blk_minutes = 0, blk_impact = 1, blk_deadline = None\<rparr>],
              placed = [ex_zero]\<rparr>
   \<and> schedule_tasks_for_day 738886 [ex_zero, ex_write] 8 ''09:00'' False 7
       = Inr [\<lparr>blk_title = ''Stretch'', blk_start = ''09:00'', blk_end = ''09:00'',
                blk_minutes = 0, blk_impact = 1, blk_deadline = None\<rparr>,
              \<lparr>blk_title = ''Write report'', blk_start = ''09:00'', blk_end = ''14:00'',
                blk_minutes = 300, blk_impact = 2, blk_deadline = None\<rparr>]
   \<and> compute_score 738886 7 ex_zero = compute_score 738886 7 (ex_zero\<lparr>minutes := 1\<rparr>)"
proof -
  let ?s = "\<lparr>current_minutes = 0, leftover_minutes = 480, schedule = [], placed = []\<rparr>"
  have zero: "minutes ex_zero = 0" by (simp add: ex_zero_def)
  have left: "0 < leftover_minutes ?s" by simp
  have body: "body 738886 9 0 False ex_zero ?s
       = Inr \<lparr>current_minutes = 0, leftover_minutes = 480,
              schedule = [\<lparr>blk_title = ''Stretch'', blk_start = ''09:00'', blk_end = ''09:00'',
                           blk_minutes = 0, blk_impact = 1, blk_deadline = None\<rparr>],
              placed = [ex_zero]\<rparr>"
    by code_simp
  have run: "schedule_tasks_for_day 738886 [ex_zero, ex_write] 8 ''09:00'' False 7
       = Inr [\<lparr>blk_title = ''Stretch'', blk_start = ''09:00'', blk_end = ''09:00'',
                blk_minutes = 0, blk_impact = 1, blk_deadline = None\<rparr>,
              \<lparr>blk_title = ''Write report'', blk_start = ''09:00'', blk_end = ''14:00'',
                blk_minutes = 300, blk_impact = 2, blk_deadline = None\<rparr>]"
    by code_simp
  from zero_minutes_block[OF zero left body, of "[]" 7]
  have "compute_score 738886 7 ex_zero = compute_score 738886 7 (ex_zero\<lparr>minutes := 1\<rparr>)"
    by blast
  with zero body run show ?thesis by simp
qed

end
